theory Spec2Isabelle
  imports Main "HOL-Library.Word" "HOL-Library.Sublist"
begin

unbundle bit_operations_syntax

section \<open>Bytes, strings and results\<close>

text \<open>
  A Go \<^verbatim>\<open>byte\<close> is an 8-bit word, a \<^verbatim>\<open>[]byte\<close> a list of them. A Go
  \<^verbatim>\<open>string\<close> is an immutable byte sequence, so it is a list of bytes too; the
  conversions \<^verbatim>\<open>[]byte(s)\<close> and \<^verbatim>\<open>string(b)\<close> are the identity.
  \<open>str\<close> writes a string literal of the source as its bytes.
\<close>

type_synonym byte = "8 word"
type_synonym bytes = "byte list"

definition str :: "string \<Rightarrow> bytes" where
  "str s = map (\<lambda>c. of_nat (of_char c)) s"

text \<open>The error values the package creates or passes on.\<close>

datatype error =
    SubstringLarger            \<comment> \<open>\<^verbatim>\<open>errors.New("substring larger than parent")\<close>\<close>
  | ByteMismatch               \<comment> \<open>\<^verbatim>\<open>errors.New("byte mismatch with sub")\<close>\<close>
  | InvalidChunkType bytes     \<comment> \<open>\<^verbatim>\<open>fmt.Errorf("invalid chunk type (%s)", ct)\<close>\<close>
  | EOF                        \<comment> \<open>\<^verbatim>\<open>io.EOF\<close>\<close>
  | Wrapped string error       \<comment> \<open>\<^verbatim>\<open>fmt.Errorf("...: %w", err)\<close>\<close>
  | MarshalError nat           \<comment> \<open>an error of \<^verbatim>\<open>json.Marshal\<close>\<close>
  | ReaderError nat            \<comment> \<open>an error of the chunk reader other than \<^verbatim>\<open>io.EOF\<close>\<close>

text \<open>Run-time panics of Go: an index or a slice bound out of range.\<close>

datatype panic = IndexOutOfRange | SliceBoundsOutOfRange

text \<open>
  A call of a function with the result type \<^verbatim>\<open>(T, error)\<close> either panics or returns a
  pair; \<open>None\<close> is \<^verbatim>\<open>nil\<close> in either component.
\<close>

datatype 'a outcome = Panic panic | Return "'a option" "error option"

section \<open>The constants\<close>

definition pngMagic :: bytes where
  "pngMagic = [137, 80, 78, 71, 13, 10, 26, 10]"

definition NULL_SEPERATOR :: byte where
  "NULL_SEPERATOR = 0"

section \<open>Library functions the package calls\<close>

text \<open>
  \<^verbatim>\<open>binary.BigEndian.PutUint32\<close> into a fresh 4-byte slice, and
  \<^verbatim>\<open>binary.BigEndian.Uint32\<close>, which panics (index out of range) on a slice of fewer
  than four bytes: \<open>None\<close>.
\<close>

definition PutUint32 :: "32 word \<Rightarrow> bytes" where
  "PutUint32 v = [ucast (drop_bit 24 v), ucast (drop_bit 16 v), ucast (drop_bit 8 v), ucast v]"

fun Uint32 :: "bytes \<Rightarrow> 32 word option" where
  "Uint32 (b0 # b1 # b2 # b3 # _) =
     Some (ucast b3 OR push_bit 8 (ucast b2) OR push_bit 16 (ucast b1) OR push_bit 24 (ucast b0))"
| "Uint32 _ = None"

text \<open>
  \<^verbatim>\<open>crc32.ChecksumIEEE\<close>: the reflected CRC-32 with polynomial \<^verbatim>\<open>0xedb88320\<close>. An
  entry of the table is eight shift steps of its index; a step of the update XORs the low
  byte of the register with the next input byte, looks the table up and shifts the register
  by eight bits; the register starts and ends complemented.
\<close>

definition crc_poly :: "32 word" where
  "crc_poly = 0xedb88320"

definition crc_shift :: "32 word \<Rightarrow> 32 word" where
  "crc_shift crc = (if crc AND 1 = 1 then drop_bit 1 crc XOR crc_poly else drop_bit 1 crc)"

definition crc_table :: "byte \<Rightarrow> 32 word" where
  "crc_table i = (crc_shift ^^ 8) (ucast i)"

definition crc_step :: "byte \<Rightarrow> 32 word \<Rightarrow> 32 word" where
  "crc_step v crc = crc_table (ucast crc XOR v) XOR drop_bit 8 crc"

definition crc_update :: "32 word \<Rightarrow> bytes \<Rightarrow> 32 word" where
  "crc_update crc p = NOT (fold crc_step p (NOT crc))"

definition ChecksumIEEE :: "bytes \<Rightarrow> 32 word" where
  "ChecksumIEEE p = crc_update 0 p"

section \<open>The prefix check\<close>

text \<open>
  \<^verbatim>\<open>errIfNotSubStr(s, sub)\<close>: an error when \<open>sub\<close> is longer than \<open>s\<close>, else
  the loop over the indices of \<open>sub\<close> compares \<open>sub[i]\<close> with \<open>s[i]\<close>. The length
  check keeps every \<open>s[i]\<close> in range.
\<close>

fun errIfNotSubStr_loop :: "bytes \<Rightarrow> nat \<Rightarrow> bytes \<Rightarrow> error option" where
  "errIfNotSubStr_loop s i [] = None"
| "errIfNotSubStr_loop s i (d # sub) =
     (if d \<noteq> s ! i then Some ByteMismatch else errIfNotSubStr_loop s (Suc i) sub)"

definition errIfNotSubStr :: "bytes \<Rightarrow> bytes \<Rightarrow> error option" where
  "errIfNotSubStr s sub =
     (if length sub > length s then Some SubstringLarger
      else errIfNotSubStr_loop s 0 sub)"

section \<open>Building a chunk\<close>

text \<open>The chunk types \<^verbatim>\<open>isValidChunkType\<close> loops over, in its order.\<close>

definition chunk_types :: "bytes list" where
  "chunk_types = map str
     [''IHDR'', ''PLTE'', ''IDAT'', ''IEND'',
      ''bKGD'', ''cHRM'', ''dSIG'', ''eXIf'', ''gAMA'', ''hIST'', ''iCCP'', ''iTXt'', ''pHYs'',
      ''sBIT'', ''sPLT'', ''sRGB'', ''sTER'', ''tEXt'', ''tIME'', ''tRNS'', ''zTXt'']"

fun isValidChunkType_loop :: "bytes list \<Rightarrow> bytes \<Rightarrow> bool" where
  "isValidChunkType_loop [] ct = False"
| "isValidChunkType_loop (v # vs) ct = (if v = ct then True else isValidChunkType_loop vs ct)"

definition isValidChunkType :: "bytes \<Rightarrow> bool" where
  "isValidChunkType ct = isValidChunkType_loop chunk_types ct"

text \<open>
  \<^verbatim>\<open>buildChunk\<close>. \<^verbatim>\<open>uint32(len(data))\<close> keeps the low 32 bits of the length:
  \<open>of_nat\<close> into \<open>32 word\<close>.
\<close>

definition buildChunk :: "bytes \<Rightarrow> bytes \<Rightarrow> bytes outcome" where
  "buildChunk ct data =
     (if \<not> isValidChunkType ct then Return None (Some (InvalidChunkType ct))
      else
        let szbs = PutUint32 (of_nat (length data));
            bb = ct @ data;
            crcbs = PutUint32 (ChecksumIEEE bb);
            bb = bb @ crcbs
        in Return (Some (szbs @ bb)) None)"

section \<open>Splicing a chunk into a stream\<close>

text \<open>
  \<^verbatim>\<open>bytes.Buffer.Next(n)\<close> returns the next \<open>n\<close> bytes, or all that is left when
  there are fewer, and advances: \<open>take n\<close> and \<open>drop n\<close>. \<open>sz + 8\<close> is an addition
  of \<^verbatim>\<open>uint32\<close> and wraps; \<^verbatim>\<open>int\<close> is 64 bits wide, so \<^verbatim>\<open>int(sz + 8)\<close> is the
  unsigned value of the sum.
\<close>

definition embed :: "bytes \<Rightarrow> bytes \<Rightarrow> bytes outcome" where
  "embed data chunk =
     (let out = [];
          d = take (length pngMagic) data; buf = drop (length pngMagic) data;
          out = out @ d
      in case errIfNotSubStr pngMagic d of
           Some err \<Rightarrow> Return None (Some err)
         | None \<Rightarrow>
            (let d = take 4 buf; buf = drop 4 buf;
                 out = out @ d
             in case Uint32 d of
                  None \<Rightarrow> Panic IndexOutOfRange
                | Some sz \<Rightarrow>
                   (let d = take (unat (sz + 8)) buf; buf = drop (unat (sz + 8)) buf;
                        out = out @ d;
                        out = out @ chunk
                    in Return (Some (out @ buf)) None)))"

section \<open>Encoding a value\<close>

text \<open>
  The dynamic types \<^verbatim>\<open>to_bytes\<close> tells apart. \<^verbatim>\<open>int\<close> and \<^verbatim>\<open>uint\<close> are
  64 bits wide (\<open>sint\<close> reads the first, \<open>uint\<close> the second). A floating-point number
  is not-a-number, an infinity with its sign, or a finite number: sign, mantissa \<open>m\<close> and
  binary exponent \<open>e\<close>, of magnitude \<open>m * 2 ^ e\<close>. Every other type takes the default
  branch, the external serializer \<^verbatim>\<open>json.Marshal\<close>. A value of one of the sized integer
  types (\<^verbatim>\<open>int8\<close> to \<^verbatim>\<open>int64\<close>, \<^verbatim>\<open>uint8\<close> to \<^verbatim>\<open>uint64\<close>, \<^verbatim>\<open>uintptr\<close>),
  which is not \<^verbatim>\<open>int\<close> or \<^verbatim>\<open>uint\<close> to the type switch, is given by the number it
  holds; a value of any other type by what the serializer returns for it.
\<close>

datatype float = NaN | Inf bool | Finite bool nat int

datatype gvalue =
    VInt "64 word"
  | VUint "64 word"
  | VFloat32 float
  | VFloat64 float
  | VString bytes
  | VSized int
  | VOther "error + bytes"

text \<open>
  \<^verbatim>\<open>fmt.Sprintf("%d", v)\<close>: the decimal digits of the magnitude, most significant first,
  after a minus sign when the number is negative.
\<close>

definition digit :: "nat \<Rightarrow> byte" where
  "digit d = of_nat (48 + d)"

function decimal :: "nat \<Rightarrow> bytes" where
  "decimal n = (if n < 10 then [digit n] else decimal (n div 10) @ [digit (n mod 10)])"
  by pat_completeness auto
termination
  by (relation "measure (\<lambda>n. n)") auto

declare decimal.simps [simp del]

definition Sprintf_d :: "int \<Rightarrow> bytes" where
  "Sprintf_d i = (if i < 0 then str ''-'' @ decimal (nat (- i)) else decimal (nat i))"

text \<open>
  \<^verbatim>\<open>fmt.Sprintf("%f", v)\<close>: precision 6. A finite number is rounded to the nearest
  multiple of one millionth, a tie to the even one (\<open>micro\<close> is the number of millionths);
  then sign, integer part, point and six fraction digits. The sign bit is printed for a
  negative zero too. \<^verbatim>\<open>NaN\<close>, \<^verbatim>\<open>+Inf\<close> and \<^verbatim>\<open>-Inf\<close> are printed by name.
\<close>

definition micro :: "nat \<Rightarrow> int \<Rightarrow> nat" where
  "micro m e =
     (if 0 \<le> e then m * 2 ^ nat e * 10 ^ 6
      else
        let num = m * 10 ^ 6; den = 2 ^ nat (- e); q = num div den; r = num mod den
        in if 2 * r > den \<or> (2 * r = den \<and> odd q) then q + 1 else q)"

definition pad6 :: "bytes \<Rightarrow> bytes" where
  "pad6 ds = replicate (6 - length ds) (digit 0) @ ds"

fun Sprintf_f :: "float \<Rightarrow> bytes" where
  "Sprintf_f NaN = str ''NaN''"
| "Sprintf_f (Inf neg) = (if neg then str ''-Inf'' else str ''+Inf'')"
| "Sprintf_f (Finite neg m e) =
     (let q = micro m e
      in (if neg then str ''-'' else []) @ decimal (q div 10 ^ 6) @ str ''.''
           @ pad6 (decimal (q mod 10 ^ 6)))"

text \<open>
  \<^verbatim>\<open>json.Marshal\<close> of an integer: a JSON number, the decimal digits after a minus sign
  when the number is negative.
\<close>

definition Marshal_integer :: "int \<Rightarrow> bytes" where
  "Marshal_integer n = (if n < 0 then str ''-'' @ decimal (nat (- n)) else decimal (nat n))"

fun to_bytes :: "gvalue \<Rightarrow> bytes outcome" where
  "to_bytes (VInt vt) = Return (Some (Sprintf_d (sint vt))) None"
| "to_bytes (VUint vt) = Return (Some (Sprintf_d (uint vt))) None"
| "to_bytes (VFloat32 vt) = Return (Some (Sprintf_f vt)) None"
| "to_bytes (VFloat64 vt) = Return (Some (Sprintf_f vt)) None"
| "to_bytes (VString vt) = Return (Some vt) None"
| "to_bytes (VSized n) = Return (Some (Marshal_integer n)) None"
| "to_bytes (VOther (Inr js)) = Return (Some js) None"
| "to_bytes (VOther (Inl err)) = Return None (Some err)"

section \<open>Payload layouts and the two embedding entry points\<close>

definition formatTEXTChunk :: "bytes \<Rightarrow> bytes \<Rightarrow> bytes" where
  "formatTEXTChunk text keyword =
     (let tEXtChunk = keyword @ [NULL_SEPERATOR];
          tEXtChunk = tEXtChunk @ text
      in tEXtChunk)"

text \<open>\<^verbatim>\<open>byte(compression_flag)\<close> keeps the low eight bits of the \<^verbatim>\<open>int\<close>.\<close>

definition formatITXTChunk :: "bytes \<Rightarrow> bytes \<Rightarrow> int \<Rightarrow> int \<Rightarrow> bytes \<Rightarrow> bytes \<Rightarrow> bytes" where
  "formatITXTChunk text keyword compression_flag compression_method language_tag translated_keyword =
     (let iTXtChunk = keyword @ [NULL_SEPERATOR];
          iTXtChunk = iTXtChunk @ [of_int compression_flag];
          iTXtChunk = iTXtChunk @ [of_int compression_method];
          iTXtChunk = iTXtChunk @ language_tag;
          iTXtChunk = iTXtChunk @ [NULL_SEPERATOR];
          iTXtChunk = iTXtChunk @ translated_keyword;
          iTXtChunk = iTXtChunk @ [NULL_SEPERATOR];
          iTXtChunk = iTXtChunk @ text
      in iTXtChunk)"

text \<open>A \<^verbatim>\<open>nil\<close> slice appends and converts as the empty slice does.\<close>

fun slice :: "bytes option \<Rightarrow> bytes" where
  "slice None = []"
| "slice (Some bs) = bs"

text \<open>
  \<^verbatim>\<open>EmbedTEXT\<close> and \<^verbatim>\<open>EmbedITXT\<close> drop the error of \<^verbatim>\<open>buildChunk\<close>
  (\<^verbatim>\<open>pngChunk, _ := buildChunk(...)\<close>) and splice whatever slice came back.
\<close>

definition EmbedTEXT :: "bytes \<Rightarrow> bytes \<Rightarrow> gvalue \<Rightarrow> bytes outcome" where
  "EmbedTEXT data k v =
     (case to_bytes v of
        Panic p \<Rightarrow> Panic p
      | Return val (Some err) \<Rightarrow> Return None (Some err)
      | Return val None \<Rightarrow>
          (let tEXtChunk = formatTEXTChunk (slice val) k
           in case buildChunk (str ''tEXt'') tEXtChunk of
                Panic p \<Rightarrow> Panic p
              | Return pngChunk _ \<Rightarrow> embed data (slice pngChunk)))"

definition EmbedITXT :: "bytes \<Rightarrow> bytes \<Rightarrow> gvalue \<Rightarrow> bytes outcome" where
  "EmbedITXT data k v =
     (case to_bytes v of
        Panic p \<Rightarrow> Panic p
      | Return val (Some err) \<Rightarrow> Return None (Some err)
      | Return val None \<Rightarrow>
          (let compression_flag = 0;
               compression_method = 0;
               language_tag = [];
               translate_keyword = [];
               iTXtChunk = formatITXTChunk (slice val) k compression_flag compression_method
                             language_tag translate_keyword
           in case buildChunk (str ''iTXt'') iTXtChunk of
                Panic p \<Rightarrow> Panic p
              | Return pngChunk _ \<Rightarrow> embed data (slice pngChunk)))"

section \<open>Extraction\<close>

subsection \<open>The chunk reader\<close>

text \<open>
  The chunk reader is an external package. The extraction functions use it through
  \<^verbatim>\<open>NewReader(data, options)\<close>, which fails or gives a reader, and \<^verbatim>\<open>Next()\<close>,
  which gives the next chunk of one of the included types or an error (\<^verbatim>\<open>io.EOF\<close> at
  the end of the stream). What a reader does on a stream is the sequence of chunks its
  \<^verbatim>\<open>Next\<close> returns up to its first error: a \<open>chunks\<close>. A \<open>reader\<close> takes the
  stream and the included chunk types and fails (\<open>Inl\<close>) or gives that sequence.
\<close>

record chunk =
  CType :: bytes
  Data :: bytes

datatype chunks = Yield chunk chunks | Stop error

type_synonym reader = "bytes \<Rightarrow> bytes list \<Rightarrow> error + chunks"

subsection \<open>\<^verbatim>\<open>tEXt\<close>\<close>

text \<open>
  \<^verbatim>\<open>strings.Index(s, substr)\<close>: the index of the first occurrence of \<open>substr\<close> in
  \<open>s\<close>, or \<open>-1\<close> when there is none.
\<close>

fun strings_Index :: "bytes \<Rightarrow> bytes \<Rightarrow> int" where
  "strings_Index [] substr = (if substr = [] then 0 else - 1)"
| "strings_Index (b # s) substr =
     (if prefix substr (b # s) then 0
      else let i = strings_Index s substr in if i < 0 then - 1 else i + 1)"

text \<open>
  The slice expressions \<^verbatim>\<open>b[:hi]\<close> and \<^verbatim>\<open>b[lo:]\<close> panic when the bound is negative
  or beyond the slice. (\<^verbatim>\<open>b[:hi]\<close> checks \<open>hi\<close> against the capacity, which is at least
  the length; the loop below reaches it with \<open>hi\<close> below the length or negative.)
\<close>

definition slice_to :: "bytes \<Rightarrow> int \<Rightarrow> bytes option" where
  "slice_to b hi = (if hi < 0 \<or> int (length b) < hi then None else Some (take (nat hi) b))"

definition slice_from :: "bytes \<Rightarrow> int \<Rightarrow> bytes option" where
  "slice_from b lo = (if lo < 0 \<or> int (length b) < lo then None else Some (drop (nat lo) b))"

text \<open>
  The loop of \<^verbatim>\<open>ExtractTEXT\<close> over the chunks the reader returns, and what follows it:
  \<^verbatim>\<open>io.EOF\<close> becomes \<^verbatim>\<open>nil\<close>, and the map is returned together with the error.
  \<^verbatim>\<open>string(0)\<close> is the string of the one byte 0.
\<close>

fun ExtractTEXT_loop :: "(bytes \<rightharpoonup> bytes) \<Rightarrow> chunks \<Rightarrow> (bytes \<rightharpoonup> bytes) outcome" where
  "ExtractTEXT_loop ret (Stop err) = Return (Some ret) (if err = EOF then None else Some err)"
| "ExtractTEXT_loop ret (Yield c next) =
     (let sz = int (length (Data c));
          pt = strings_Index (Data c) [0]
      in if pt < sz then
           (case slice_to (Data c) pt of
              None \<Rightarrow> Panic SliceBoundsOutOfRange
            | Some key \<Rightarrow>
               (case slice_from (Data c) (pt + 1) of
                  None \<Rightarrow> Panic SliceBoundsOutOfRange
                | Some val \<Rightarrow> ExtractTEXT_loop (ret(key \<mapsto> val)) next))
         else ExtractTEXT_loop ret next)"

definition ExtractTEXT :: "reader \<Rightarrow> bytes \<Rightarrow> (bytes \<rightharpoonup> bytes) outcome" where
  "ExtractTEXT NewReader data =
     (let ret = Map.empty
      in case NewReader data [str ''tEXt''] of
           Inl err \<Rightarrow> Return None (Some err)
         | Inr r \<Rightarrow> ExtractTEXT_loop ret r)"

subsection \<open>\<^verbatim>\<open>iTXt\<close>\<close>

text \<open>
  A \<^verbatim>\<open>bufio.Reader\<close> over the payload is the bytes not yet read. \<^verbatim>\<open>ReadBytes(delim)\<close>
  returns the bytes up to and including the first \<open>delim\<close>, or all the rest and
  \<^verbatim>\<open>io.EOF\<close> when there is none; \<^verbatim>\<open>Discard(n)\<close> skips \<open>n\<close> bytes, or fails with
  \<^verbatim>\<open>io.EOF\<close> when fewer are left; \<^verbatim>\<open>io.ReadAll\<close> returns the rest. Each returns the
  reader's new state last.
\<close>

definition ReadBytes :: "bytes \<Rightarrow> byte \<Rightarrow> bytes \<times> error option \<times> bytes" where
  "ReadBytes r delim =
     (if delim \<in> set r
      then (takeWhile (\<lambda>b. b \<noteq> delim) r @ [delim], None, tl (dropWhile (\<lambda>b. b \<noteq> delim) r))
      else (r, Some EOF, []))"

definition Discard :: "bytes \<Rightarrow> nat \<Rightarrow> nat \<times> error option \<times> bytes" where
  "Discard r n = (if n \<le> length r then (n, None, drop n r) else (length r, Some EOF, []))"

definition ReadAll :: "bytes \<Rightarrow> bytes \<times> error option \<times> bytes" where
  "ReadAll r = (r, None, [])"

definition readNullTerminated :: "bytes \<Rightarrow> bytes \<times> error option \<times> bytes" where
  "readNullTerminated r =
     (case ReadBytes r NULL_SEPERATOR of
        (data, Some err, r') \<Rightarrow> ([], Some err, r')
      | (data, None, r') \<Rightarrow> (take (length data - 1) data, None, r'))"

text \<open>
  The body of the loop of \<^verbatim>\<open>ExtractITXT\<close> on one payload: the error it returns with,
  or the keyword and the text it stores.
\<close>

definition ExtractITXT_body :: "bytes \<Rightarrow> error + bytes \<times> bytes" where
  "ExtractITXT_body payload =
     (case readNullTerminated payload of
        (_, Some err, _) \<Rightarrow> Inl err
      | (keyword, None, br) \<Rightarrow>
     (case Discard br 1 of
        (_, Some err, _) \<Rightarrow> Inl (Wrapped ''discard compression flag'' err)
      | (_, None, br) \<Rightarrow>
     (case Discard br 1 of
        (_, Some err, _) \<Rightarrow> Inl (Wrapped ''discard compression method'' err)
      | (_, None, br) \<Rightarrow>
     (case ReadBytes br NULL_SEPERATOR of
        (_, Some err, _) \<Rightarrow> Inl (Wrapped ''read language tag'' err)
      | (_, None, br) \<Rightarrow>
     (case ReadBytes br NULL_SEPERATOR of
        (_, Some err, _) \<Rightarrow> Inl (Wrapped ''read translated keyword'' err)
      | (_, None, br) \<Rightarrow>
     (case ReadAll br of
        (_, Some err, _) \<Rightarrow> Inl (Wrapped ''read text'' err)
      | (textBytes, None, _) \<Rightarrow> Inr (keyword, textBytes)))))))"

fun ExtractITXT_loop :: "(bytes \<rightharpoonup> bytes) \<Rightarrow> chunks \<Rightarrow> (bytes \<rightharpoonup> bytes) outcome" where
  "ExtractITXT_loop ret (Stop err) = Return (Some ret) (if err = EOF then None else Some err)"
| "ExtractITXT_loop ret (Yield c next) =
     (case ExtractITXT_body (Data c) of
        Inl err \<Rightarrow> Return None (Some err)
      | Inr (keyword, textBytes) \<Rightarrow> ExtractITXT_loop (ret(keyword \<mapsto> textBytes)) next)"

definition ExtractITXT :: "reader \<Rightarrow> bytes \<Rightarrow> (bytes \<rightharpoonup> bytes) outcome" where
  "ExtractITXT NewReader data =
     (let ret = Map.empty
      in case NewReader data [str ''iTXt''] of
           Inl err \<Rightarrow> Return None (Some err)
         | Inr r \<Rightarrow> ExtractITXT_loop ret r)"

subsection \<open>A reader over the chunk layout\<close>

text \<open>
  The source of the chunk reader is not in the repository. The spec describes a PNG stream
  as the 8-byte magic number followed by chunks, each a 4-byte big-endian length, a 4-byte
  type, the data and a 4-byte checksum of type and data, and the reader as yielding the
  chunks of the requested types in stream order, the end of the stream apart from any other
  failure. The three definitions below are that reader. The spec does not say whether the
  reader recomputes the checksums: with \<open>verify\<close> it does, and stops at the first chunk
  whose checksum is wrong. Its errors are \<open>ReaderError 0\<close> (no magic number),
  \<open>ReaderError 1\<close> (the stream ends inside a chunk) and \<open>ReaderError 2\<close> (a wrong
  checksum).
\<close>

text \<open>
  Modelled from the spec: taking one chunk off the front of the stream, which the absent
  reader does for each chunk: type, data, checksum field and the rest of the stream, or
  \<open>None\<close> when the stream ends inside the chunk.
\<close>

definition read_chunk :: "bytes \<Rightarrow> (bytes \<times> bytes \<times> bytes \<times> bytes) option" where
  "read_chunk bs =
     (case Uint32 (take 4 bs) of
        None \<Rightarrow> None
      | Some sz \<Rightarrow>
          let body = drop 8 bs
          in if length bs < 8 \<or> length body < unat sz + 4 then None
             else Some (take 4 (drop 4 bs), take (unat sz) body,
                        take 4 (drop (unat sz) body), drop (unat sz + 4) body))"

text \<open>
  Modelled from the spec: the absent reader's \<^verbatim>\<open>Next\<close>, called until its first error,
  on the bytes after the magic number: \<^verbatim>\<open>io.EOF\<close> at the end of the stream, the
  chunks of the included types in stream order, the others skipped.
\<close>

function pngr_Next :: "bool \<Rightarrow> bytes list \<Rightarrow> bytes \<Rightarrow> chunks" where
  "pngr_Next verify included bs =
     (if bs = [] then Stop EOF
      else case read_chunk bs of
             None \<Rightarrow> Stop (ReaderError 1)
           | Some (ty, dat, crc, rest) \<Rightarrow>
               if verify \<and> PutUint32 (ChecksumIEEE (ty @ dat)) \<noteq> crc then Stop (ReaderError 2)
               else if ty \<in> set included
                 then Yield \<lparr>CType = ty, Data = dat\<rparr> (pngr_Next verify included rest)
                 else pngr_Next verify included rest)"
  by pat_completeness auto
termination
  by (relation "measure (\<lambda>(verify, included, bs). length bs)")
     (auto simp: read_chunk_def Let_def split: option.splits if_splits)

declare pngr_Next.simps [simp del]

text \<open>
  Modelled from the spec: the absent reader's \<^verbatim>\<open>NewReader\<close>, which accepts a stream
  that begins with the magic number.
\<close>

definition pngr_NewReader :: "bool \<Rightarrow> reader" where
  "pngr_NewReader verify data included =
     (if take 8 data = pngMagic then Inr (pngr_Next verify included (drop 8 data))
      else Inl (ReaderError 0))"

section \<open>Reading bytes as a number\<close>

text \<open>
  The number a byte sequence denotes as a big-endian unsigned integer: the claims speak of
  lengths and checksums written that way.
\<close>

definition be_value :: "bytes \<Rightarrow> nat" where
  "be_value bs = foldl (\<lambda>a b. 256 * a + unat b) 0 bs"

section \<open>Notions the claims use\<close>

text \<open>
  The bytes of a chunk: the length of the payload in four bytes, the type, the payload and
  the checksum of type and payload in four bytes.
\<close>

definition chunk_bytes :: "bytes \<Rightarrow> bytes \<Rightarrow> bytes" where
  "chunk_bytes ct p =
     PutUint32 (of_nat (length p)) @ ct @ p @ PutUint32 (ChecksumIEEE (ct @ p))"

text \<open>The chunks a reader returns on a stream, in order.\<close>

fun chunks_of :: "chunks \<Rightarrow> chunk list" where
  "chunks_of (Stop err) = []"
| "chunks_of (Yield c next) = c # chunks_of next"

text \<open>
  An \<^verbatim>\<open>iTXt\<close> payload is exhausted early when no null byte ends the keyword, or fewer
  than two bytes follow that null byte (the compression flag and method), or no null byte
  ends the language tag after them, or none ends the translated keyword.
  \<open>after_null\<close> is what follows the first null byte.
\<close>

definition after_null :: "bytes \<Rightarrow> bytes" where
  "after_null p = tl (dropWhile (\<lambda>b. b \<noteq> 0) p)"

definition itxt_exhausted :: "bytes \<Rightarrow> bool" where
  "itxt_exhausted p \<longleftrightarrow>
     0 \<notin> set p \<or>
     length (after_null p) < 2 \<or>
     0 \<notin> set (drop 2 (after_null p)) \<or>
     0 \<notin> set (after_null (drop 2 (after_null p)))"

text \<open>
  Decimal text: the ASCII digits, and the number a sequence of them denotes.
\<close>

definition is_digit :: "byte \<Rightarrow> bool" where
  "is_digit b \<longleftrightarrow> 48 \<le> unat b \<and> unat b \<le> 57"

definition dec_value :: "bytes \<Rightarrow> nat" where
  "dec_value ds = foldl (\<lambda>a b. 10 * a + (unat b - 48)) 0 ds"

text \<open>
  The decimal text of a number: digits only, no leading zero (the text of 0 is the one
  digit), denoting the number.
\<close>

definition decimal_text :: "bytes \<Rightarrow> nat \<Rightarrow> bool" where
  "decimal_text ds n \<longleftrightarrow>
     ds \<noteq> [] \<and> list_all is_digit ds \<and> (ds = [48] \<or> hd ds \<noteq> 48) \<and> dec_value ds = n"

text \<open>
  What the mapping an extraction returns gives for a key; nothing when no mapping is
  returned.
\<close>

fun lookup :: "(bytes \<rightharpoonup> bytes) outcome \<Rightarrow> bytes \<Rightarrow> bytes option" where
  "lookup (Return (Some m) err) k = m k"
| "lookup (Return None err) k = None"
| "lookup (Panic p) k = None"

section \<open>Streams used as inputs below\<close>

text \<open>
  A PNG file of one pixel: \<^verbatim>\<open>IHDR\<close>, a \<^verbatim>\<open>tEXt\<close> chunk with the payload
  \<^verbatim>\<open>abc\<close> (no null byte), \<^verbatim>\<open>IEND\<close>.
\<close>

definition png_no_separator :: bytes where
  "png_no_separator = pngMagic @
     [0, 0, 0, 13, 73, 72, 68, 82, 0, 0, 0, 1, 0, 0, 0, 1, 8, 0, 0, 0, 0, 58, 126, 155, 85] @
     [0, 0, 0, 3, 116, 69, 88, 116, 97, 98, 99, 252, 133, 155, 136] @
     [0, 0, 0, 0, 73, 69, 78, 68, 174, 66, 96, 130]"

text \<open>
  A PNG file with two \<^verbatim>\<open>iTXt\<close> chunks: the payload of the first is well formed
  (keyword \<^verbatim>\<open>a\<close>, text \<^verbatim>\<open>b\<close>), the payload of the second is the bytes
  \<^verbatim>\<open>key\<close>, three zero bytes and \<^verbatim>\<open>langtext\<close>, with no null byte after the
  language tag.
\<close>

definition png_itxt_truncated :: bytes where
  "png_itxt_truncated = pngMagic @
     [0, 0, 0, 13, 73, 72, 68, 82, 0, 0, 0, 1, 0, 0, 0, 1, 8, 0, 0, 0, 0, 58, 126, 155, 85] @
     [0, 0, 0, 7, 105, 84, 88, 116, 97, 0, 0, 0, 0, 0, 98, 159, 12, 4, 66] @
     [0, 0, 0, 14, 105, 84, 88, 116, 107, 101, 121, 0, 0, 0, 108, 97, 110, 103, 116, 101, 120, 116,
      182, 218, 5, 183] @
     [0, 0, 0, 0, 73, 69, 78, 68, 174, 66, 96, 130]"

text \<open>A PNG file of one pixel: \<^verbatim>\<open>IHDR\<close> and \<^verbatim>\<open>IEND\<close>.\<close>

definition png_minimal :: bytes where
  "png_minimal = pngMagic @
     [0, 0, 0, 13, 73, 72, 68, 82, 0, 0, 0, 1, 0, 0, 0, 1, 8, 0, 0, 0, 0, 58, 126, 155, 85] @
     [0, 0, 0, 0, 73, 69, 78, 68, 174, 66, 96, 130]"

text \<open>
  A text of \<open>2\<^sup>3\<^sup>2 - 2\<close> letters \<^verbatim>\<open>a\<close>, and the stream \<^verbatim>\<open>EmbedTEXT\<close> makes
  of the one-pixel file, the key \<^verbatim>\<open>k\<close> and that text: the payload is \<open>2\<^sup>3\<^sup>2\<close> bytes
  long and the length field of the new chunk is zero.
\<close>

definition huge_text :: bytes where
  "huge_text = replicate (2 ^ 32 - 2) 97"

definition huge_out :: bytes where
  "huge_out = pngMagic @
     [0, 0, 0, 13, 73, 72, 68, 82, 0, 0, 0, 1, 0, 0, 0, 1, 8, 0, 0, 0, 0, 58, 126, 155, 85] @
     ([0, 0, 0, 0, 116, 69, 88, 116] @ (107 # 0 # huge_text) @
        PutUint32 (ChecksumIEEE ([116, 69, 88, 116] @ 107 # 0 # huge_text))) @
     [0, 0, 0, 0, 73, 69, 78, 68, 174, 66, 96, 130]"

text \<open>
  A stream of the magic number, the length bytes \<^verbatim>\<open>ff ff ff ff\<close> and
  \<open>2\<^sup>3\<^sup>2 + 7\<close> zero bytes.
\<close>

definition wrap_stream :: bytes where
  "wrap_stream = pngMagic @ [255, 255, 255, 255] @ replicate (2 ^ 32 + 7) 0"

section \<open>Facts about the library functions\<close>

lemma be32_roundtrip:
  "ucast (ucast w :: byte) OR push_bit 8 (ucast (ucast (drop_bit 8 w) :: byte)) OR
   push_bit 16 (ucast (ucast (drop_bit 16 w) :: byte)) OR
   push_bit 24 (ucast (ucast (drop_bit 24 w) :: byte)) = (w :: 32 word)"
  (is "?lhs = w")
proof (rule bit_word_eqI)
  fix n :: nat
  assume n: "n < LENGTH(32)"
  consider "n < 8" | "8 \<le> n" "n < 16" | "16 \<le> n" "n < 24" | "24 \<le> n"
    by linarith
  then show "bit ?lhs n = bit w n"
    using n by cases (auto simp: bit_simps)
qed

lemma Uint32_PutUint32: "Uint32 (PutUint32 w @ rest) = Some w"
  by (simp add: PutUint32_def be32_roundtrip)

lemma length_PutUint32: "length (PutUint32 w) = 4"
  by (simp add: PutUint32_def)

lemma Uint32_None_iff: "Uint32 d = None \<longleftrightarrow> length d < 4"
  by (induction d rule: Uint32.induct) auto

lemma length_pngMagic: "length pngMagic = 8"
  by (simp add: pngMagic_def)

section \<open>The magic-number check and the splice\<close>

lemma errIfNotSubStr_loop_eq:
  "i + length sub \<le> length s \<Longrightarrow>
   errIfNotSubStr_loop s i sub =
     (if sub = take (length sub) (drop i s) then None else Some ByteMismatch)"
proof (induction sub arbitrary: i)
  case Nil
  then show ?case by simp
next
  case (Cons d sub)
  then have "i < length s" by simp
  then have "drop i s = s ! i # drop (Suc i) s"
    by (simp add: Cons_nth_drop_Suc)
  with Cons show ?case by simp
qed

lemma errIfNotSubStr_prefix:
  "errIfNotSubStr s sub =
     (if length sub > length s then Some SubstringLarger
      else if prefix sub s then None else Some ByteMismatch)"
proof (cases "length sub > length s")
  case True
  then show ?thesis by (simp add: errIfNotSubStr_def)
next
  case False
  then have "errIfNotSubStr s sub =
      (if sub = take (length sub) s then None else Some ByteMismatch)"
    by (simp add: errIfNotSubStr_def errIfNotSubStr_loop_eq)
  moreover have "(sub = take (length sub) s) = prefix sub s"
    using False by (metis prefix_def append_take_drop_id append_eq_conv_conj take_is_prefix)
  ultimately show ?thesis using False by simp
qed

text \<open>\<^verbatim>\<open>embed\<close> with its local variables substituted.\<close>

lemma embed_unfold:
  "embed data chunk =
     (case errIfNotSubStr pngMagic (take 8 data) of
        Some err \<Rightarrow> Return None (Some err)
      | None \<Rightarrow>
         (case Uint32 (take 4 (drop 8 data)) of
            None \<Rightarrow> Panic IndexOutOfRange
          | Some sz \<Rightarrow>
              Return (Some (take 8 data @ take 4 (drop 8 data) @ take (unat (sz + 8)) (drop 12 data)
                            @ chunk @ drop (unat (sz + 8) + 12) data)) None))"
  by (simp add: embed_def Let_def length_pngMagic add.commute split: option.splits)

text \<open>
  A stream of at least eight bytes that do not equal the magic number is rejected, and
  nothing is returned but the error.
\<close>

lemma embed_bad_magic:
  assumes "length data \<ge> 8" "take 8 data \<noteq> pngMagic"
  shows "embed data c = Return None (Some ByteMismatch)"
proof -
  have "\<not> prefix (take 8 data) pngMagic"
  proof
    assume "prefix (take 8 data) pngMagic"
    then obtain zs where zs: "pngMagic = take 8 data @ zs"
      by (auto simp: prefix_def)
    then have "length pngMagic = length (take 8 data) + length zs"
      by (metis length_append)
    then have "zs = []" using assms(1) by (simp add: length_pngMagic)
    then show False using zs assms(2) by simp
  qed
  then have "errIfNotSubStr pngMagic (take 8 data) = Some ByteMismatch"
    using assms by (simp add: errIfNotSubStr_prefix length_pngMagic)
  then show ?thesis by (simp add: embed_unfold)
qed

section \<open>Claims about the splice\<close>

text \<open>
  C4, as amended. A stream that starts with the magic number, whose next four bytes decode
  to the length \<open>sz\<close>, with \<open>sz + 8\<close> representable in 32 bits, and that holds at least
  \<open>sz + 8\<close> bytes after those twelve: \<^verbatim>\<open>embed\<close> succeeds and returns the magic
  number, the four length bytes, the next \<open>sz + 8\<close> bytes, the new chunk and then all
  the rest of the stream, unchanged and in order.
\<close>

theorem embed_splices_after_first_chunk:
  assumes "take 8 data = pngMagic"
      and "Uint32 (take 4 (drop 8 data)) = Some sz"
      and "unat sz + 8 < 2 ^ 32"
      and "12 + (unat sz + 8) \<le> length data"
  shows "embed data c =
     Return (Some (take 8 data @ take 4 (drop 8 data) @ take (unat sz + 8) (drop 12 data) @ c
                   @ drop (12 + (unat sz + 8)) data)) None"
proof -
  have magic: "errIfNotSubStr pngMagic (take 8 data) = None"
    using assms(1) by (simp add: errIfNotSubStr_prefix)
  have nowrap: "unat (sz + 8) = unat sz + 8"
    using assms(3) by (simp add: unat_word_ariths)
  show ?thesis
    using magic nowrap assms(2) by (simp add: embed_unfold add.commute)
qed

theorem embed_splices_after_first_chunk_witness:
  "embed (pngMagic @ [0, 0, 0, 1, 73, 72, 68, 82, 7, 1, 2, 3, 4, 9, 9]) [5, 5] =
     Return (Some (pngMagic @ [0, 0, 0, 1, 73, 72, 68, 82, 7, 1, 2, 3, 4, 5, 5, 9, 9])) None"
  using embed_splices_after_first_chunk
    [of "pngMagic @ [0, 0, 0, 1, 73, 72, 68, 82, 7, 1, 2, 3, 4, 9, 9]" 1 "[5, 5]"]
  by (simp add: pngMagic_def)

text \<open>
  The claim as stated fails where \<open>sz + 8\<close> does not fit 32 bits. The stream is the
  magic number, the length bytes \<^verbatim>\<open>ff ff ff ff\<close> and \<open>2\<^sup>3\<^sup>2 + 7\<close> zero bytes, so it
  holds \<open>sz + 8\<close> further bytes. \<^verbatim>\<open>embed\<close> computes \<open>sz + 8 = 7\<close> and places the chunk
  after seven of them, not after all.
\<close>

theorem embed_length_wraps_counterexample:
  "take 8 wrap_stream = pngMagic \<and>
   Uint32 (take 4 (drop 8 wrap_stream)) = Some 0xFFFFFFFF \<and>
   12 + (unat (0xFFFFFFFF :: 32 word) + 8) \<le> length wrap_stream \<and>
   embed wrap_stream [1] =
     Return (Some (pngMagic @ [255, 255, 255, 255] @ replicate 7 0 @ [1] @ replicate (2 ^ 32) 0)) None \<and>
   embed wrap_stream [1] \<noteq>
     Return (Some (take 8 wrap_stream @ take 4 (drop 8 wrap_stream)
                   @ take (unat (0xFFFFFFFF :: 32 word) + 8) (drop 12 wrap_stream) @ [1]
                   @ drop (12 + (unat (0xFFFFFFFF :: 32 word) + 8)) wrap_stream)) None"
proof -
  have 1: "take 8 wrap_stream = pngMagic"
    by (simp add: wrap_stream_def pngMagic_def)
  have 2: "drop 8 wrap_stream = [255, 255, 255, 255] @ replicate (2 ^ 32 + 7) 0"
    by (simp add: wrap_stream_def pngMagic_def)
  have 3: "drop 12 wrap_stream = replicate (2 ^ 32 + 7) 0"
    by (simp add: wrap_stream_def pngMagic_def)
  have 4: "Uint32 (take 4 (drop 8 wrap_stream)) = Some 0xFFFFFFFF"
    by (simp add: 2)
  have 5: "length wrap_stream = 2 ^ 32 + 19"
    by (simp add: wrap_stream_def pngMagic_def)
  have 6: "embed wrap_stream [1] =
      Return (Some (pngMagic @ [255, 255, 255, 255] @ replicate 7 0 @ [1] @ replicate (2 ^ 32) 0)) None"
    by (simp add: wrap_stream_def pngMagic_def embed_unfold errIfNotSubStr_prefix)
  have 7: "replicate 7 0 @ [1] @ replicate (2 ^ 32) 0 \<noteq> replicate (2 ^ 32 + 7) (0::byte) @ [1]"
  proof
    assume "replicate 7 0 @ [1] @ replicate (2 ^ 32) 0 = replicate (2 ^ 32 + 7) (0::byte) @ [1]"
    then have "(replicate 7 0 @ [1] @ replicate (2 ^ 32) 0) ! 7
             = (replicate (2 ^ 32 + 7) (0::byte) @ [1]) ! 7"
      by (rule arg_cong)
    then show False by (simp add: nth_append)
  qed
  show ?thesis using 1 4 5 6 7 by (simp add: 2 3)
qed

text \<open>
  C5. The guard misses the streams shorter than eight bytes that are a prefix of the magic
  number. The empty stream is one: its first eight bytes are not the magic number, the
  check passes, and \<^verbatim>\<open>embed\<close> panics at the read of the length instead of returning an
  error; so do \<^verbatim>\<open>EmbedTEXT\<close> and \<^verbatim>\<open>EmbedITXT\<close>.
\<close>

theorem embed_empty_stream_not_rejected:
  "take 8 ([] :: bytes) \<noteq> pngMagic \<and>
   embed [] c = Panic IndexOutOfRange \<and>
   EmbedTEXT [] k (VString s) = Panic IndexOutOfRange \<and>
   EmbedITXT [] k (VString s) = Panic IndexOutOfRange"
proof -
  have e: "embed [] x = Panic IndexOutOfRange" for x
    by (simp add: embed_unfold errIfNotSubStr_prefix)
  show ?thesis
    by (simp add: e EmbedTEXT_def EmbedITXT_def buildChunk_def Let_def pngMagic_def
        split: outcome.splits)
qed

text \<open>
  C9. On a stream shorter than eight bytes that is a prefix of the magic number the check
  passes, as the claim says: the bytes read are compared with the magic number only as far
  as they go. The code does not go on to splice, though: it reads the length from fewer
  than four bytes and panics, and returns nothing. It is the defect of C5: the check was
  to reject such a stream.
\<close>

theorem embed_short_prefix_passes_check:
  assumes "length data < 8" and "prefix data pngMagic"
  shows "errIfNotSubStr pngMagic (take (length pngMagic) data) = None \<and>
         embed data c = Panic IndexOutOfRange"
proof -
  have magic: "errIfNotSubStr pngMagic (take 8 data) = None"
    using assms by (simp add: errIfNotSubStr_prefix length_pngMagic)
  have len: "Uint32 (take 4 (drop 8 data)) = None"
    using assms by (simp add: Uint32_None_iff)
  show ?thesis
    using magic len by (simp add: embed_unfold length_pngMagic)
qed

text \<open>The three-byte prefix of the magic number, and a chunk of two bytes.\<close>

theorem embed_short_prefix_passes_check_witness:
  "length [137, 80, 78 :: byte] < 8 \<and> prefix [137, 80, 78] pngMagic \<and>
   errIfNotSubStr pngMagic (take (length pngMagic) [137, 80, 78]) = None \<and>
   embed [137, 80, 78] [1, 2] = Panic IndexOutOfRange"
  using embed_short_prefix_passes_check [of "[137, 80, 78]" "[1, 2]"]
  by (simp add: pngMagic_def)

section \<open>Claims about building a chunk\<close>

lemma unat_byte_of:
  "unat (ucast (drop_bit k (w :: 32 word)) :: byte) = unat w div 2 ^ k mod 256"
  by (simp add: unsigned_ucast_eq unat_drop_bit_eq take_bit_eq_mod) (simp add: drop_bit_eq_div)

lemma be_bytes_sum:
  fixes n :: nat
  assumes "n < 2 ^ 32"
  shows "256 * (256 * (256 * (n div 2 ^ 24 mod 256) + n div 2 ^ 16 mod 256)
             + n div 2 ^ 8 mod 256) + n mod 256 = n"
proof -
  define a where "a = n div 256"
  define b where "b = a div 256"
  define c where "c = b div 256"
  have a: "n div 2 ^ 8 = a" by (simp add: a_def)
  have b: "n div 2 ^ 16 = b"
    using div_mult2_eq [of n 256 256] by (simp add: a_def b_def)
  have c: "n div 2 ^ 24 = c"
    using div_mult2_eq [of n 65536 256] b by (simp add: c_def)
  have "c < 256" using assms c by (simp add: less_mult_imp_div_less)
  then have c_mod: "c mod 256 = c" by simp
  have "256 * c + b mod 256 = b"
    unfolding c_def by (rule mult_div_mod_eq)
  moreover have "256 * b + a mod 256 = a"
    unfolding b_def by (rule mult_div_mod_eq)
  moreover have "256 * a + n mod 256 = n"
    unfolding a_def by (rule mult_div_mod_eq)
  ultimately show ?thesis
    by (simp only: a b c c_mod)
qed

text \<open>\<^verbatim>\<open>PutUint32\<close> writes its argument big-endian.\<close>

lemma be_value_PutUint32: "be_value (PutUint32 w) = unat w"
proof -
  have lt: "unat w < 2 ^ 32"
    using unsigned_less [of w, where ?'a = nat] by simp
  have low: "unat (ucast w :: byte) = unat w mod 256"
    using unat_byte_of [of 0 w] by simp
  have "be_value (PutUint32 w) =
      256 * (256 * (256 * (unat w div 2 ^ 24 mod 256) + unat w div 2 ^ 16 mod 256)
             + unat w div 2 ^ 8 mod 256) + unat w mod 256"
    by (simp add: be_value_def PutUint32_def unat_byte_of low)
  also have "\<dots> = unat w"
    using lt by (rule be_bytes_sum)
  finally show ?thesis .
qed

lemma isValidChunkType_iff: "isValidChunkType ct \<longleftrightarrow> ct \<in> set chunk_types"
proof -
  have "isValidChunkType_loop vs ct \<longleftrightarrow> ct \<in> set vs" for vs
    by (induction vs) auto
  then show ?thesis by (simp add: isValidChunkType_def)
qed

lemma chunk_types_length: "ct \<in> set chunk_types \<Longrightarrow> length ct = 4"
  by (auto simp: chunk_types_def str_def)

text \<open>Evaluating a checksum: one step of the loop, and a table entry as eight shifts.\<close>

lemma crc_table_unfold:
  "crc_table i = crc_shift (crc_shift (crc_shift (crc_shift (crc_shift (crc_shift
     (crc_shift (crc_shift (ucast i))))))))"
  by (simp add: crc_table_def eval_nat_numeral)

lemma crc_fold_step: "fold crc_step (x # xs) c = fold crc_step xs (crc_step x c)"
  by simp

lemma crc_start: "NOT (0 :: 32 word) = 0xFFFFFFFF"
  by simp

text \<open>The checksum of the type \<^verbatim>\<open>IEND\<close>, as every PNG file ends with it.\<close>

lemma ChecksumIEEE_IEND: "ChecksumIEEE [73, 69, 78, 68] = 0xAE426082"
  unfolding ChecksumIEEE_def crc_update_def
  by (simp only: crc_start)
     (simp add: crc_fold_step crc_step_def crc_table_unfold crc_shift_def crc_poly_def
        del: fold_simps)

text \<open>
  C6, as amended. For a chunk type of the whitelist, \<^verbatim>\<open>buildChunk\<close> returns the four
  bytes of \<^verbatim>\<open>uint32(len(p))\<close>, the four bytes of the type, the payload, and the CRC-32
  of type and payload as four bytes. The first four bytes denote, big-endian, the length of
  the payload modulo \<open>2\<^sup>3\<^sup>2\<close>: the length itself for a payload shorter than
  \<open>2\<^sup>3\<^sup>2\<close> bytes. The last four denote the checksum, and decode to the CRC-32 of the
  type and data bytes that stand before them in the chunk.
\<close>

theorem buildChunk_layout:
  assumes "isValidChunkType ct"
  shows "\<exists>out. buildChunk ct p = Return (Some out) None \<and>
      out = PutUint32 (of_nat (length p)) @ ct @ p @ PutUint32 (ChecksumIEEE (ct @ p)) \<and>
      length ct = 4 \<and>
      be_value (take 4 out) = length p mod 2 ^ 32 \<and>
      (length p < 2 ^ 32 \<longrightarrow> be_value (take 4 out) = length p) \<and>
      be_value (drop (8 + length p) out) = unat (ChecksumIEEE (ct @ p)) \<and>
      Uint32 (drop (8 + length p) out) = Some (ChecksumIEEE (take (4 + length p) (drop 4 out)))"
proof -
  have ct: "length ct = 4"
    using assms by (simp add: isValidChunkType_iff chunk_types_length)
  have len: "be_value (PutUint32 (of_nat (length p))) = length p mod 2 ^ 32"
    by (simp add: be_value_PutUint32 unat_of_nat take_bit_eq_mod)
  have crc: "Uint32 (drop (8 + length p)
        (PutUint32 (of_nat (length p)) @ ct @ p @ PutUint32 (ChecksumIEEE (ct @ p))))
      = Some (ChecksumIEEE (ct @ p))"
    using Uint32_PutUint32 [of "ChecksumIEEE (ct @ p)" "[]"]
    by (simp add: ct length_PutUint32)
  show ?thesis
    using assms ct len crc
    by (simp add: buildChunk_def Let_def length_PutUint32 be_value_PutUint32)
qed

theorem buildChunk_layout_witness:
  "buildChunk (str ''IEND'') [] =
     Return (Some [0, 0, 0, 0, 73, 69, 78, 68, 0xAE, 0x42, 0x60, 0x82]) None"
proof -
  have valid: "isValidChunkType (str ''IEND'')"
    by (simp add: isValidChunkType_iff chunk_types_def)
  have ty: "str ''IEND'' = [73, 69, 78, 68]"
    by (simp add: str_def)
  show ?thesis
    using buildChunk_layout [OF valid, of "[]"]
    by (simp add: ty ChecksumIEEE_IEND PutUint32_def)
qed

text \<open>
  The claim as stated has the length of every payload in the first four bytes. For the
  payload of \<open>2\<^sup>3\<^sup>2\<close> zero bytes they are four zero bytes, which denote 0.
\<close>

theorem buildChunk_length_wraps_counterexample:
  "isValidChunkType (str ''IEND'') \<and>
   buildChunk (str ''IEND'') (replicate (2 ^ 32) 0) =
     Return (Some ([0, 0, 0, 0] @ str ''IEND'' @ replicate (2 ^ 32) 0 @
                   PutUint32 (ChecksumIEEE (str ''IEND'' @ replicate (2 ^ 32) 0)))) None \<and>
   be_value [0, 0, 0, 0] = 0 \<and>
   length (replicate (2 ^ 32) (0 :: byte)) = 2 ^ 32 \<and>
   be_value [0, 0, 0, 0] \<noteq> length (replicate (2 ^ 32) (0 :: byte))"
proof -
  have valid: "isValidChunkType (str ''IEND'')"
    by (simp add: isValidChunkType_iff chunk_types_def)
  have len: "(of_nat (2 ^ 32) :: 32 word) = 0"
    by simp
  have zero: "PutUint32 0 = [0, 0, 0, 0]"
    by (simp add: PutUint32_def)
  have "buildChunk (str ''IEND'') (replicate (2 ^ 32) 0) =
     Return (Some (PutUint32 (of_nat (2 ^ 32)) @ str ''IEND'' @ replicate (2 ^ 32) 0 @
                   PutUint32 (ChecksumIEEE (str ''IEND'' @ replicate (2 ^ 32) 0)))) None"
    using valid by (simp add: buildChunk_def Let_def)
  then show ?thesis
    using valid by (simp only: len zero) (simp add: be_value_def)
qed

text \<open>
  C7. A chunk type outside the whitelist makes \<^verbatim>\<open>buildChunk\<close> fail with the
  invalid-chunk-type error and return no bytes; a chunk type of the whitelist makes it
  succeed.
\<close>

theorem buildChunk_whitelist:
  "(ct \<notin> set (map str [''IHDR'', ''PLTE'', ''IDAT'', ''IEND'', ''bKGD'', ''cHRM'', ''dSIG'',
        ''eXIf'', ''gAMA'', ''hIST'', ''iCCP'', ''iTXt'', ''pHYs'', ''sBIT'', ''sPLT'', ''sRGB'',
        ''sTER'', ''tEXt'', ''tIME'', ''tRNS'', ''zTXt''])
      \<longrightarrow> buildChunk ct p = Return None (Some (InvalidChunkType ct))) \<and>
   (ct \<in> set (map str [''IHDR'', ''PLTE'', ''IDAT'', ''IEND'', ''bKGD'', ''cHRM'', ''dSIG'',
        ''eXIf'', ''gAMA'', ''hIST'', ''iCCP'', ''iTXt'', ''pHYs'', ''sBIT'', ''sPLT'', ''sRGB'',
        ''sTER'', ''tEXt'', ''tIME'', ''tRNS'', ''zTXt''])
      \<longrightarrow> (\<exists>out. buildChunk ct p = Return (Some out) None))"
  unfolding buildChunk_def Let_def isValidChunkType_iff chunk_types_def
  by simp

theorem buildChunk_whitelist_witness:
  "buildChunk (str ''abcd'') [1] = Return None (Some (InvalidChunkType (str ''abcd''))) \<and>
   (\<exists>out. buildChunk (str ''tEXt'') [1] = Return (Some out) None)"
  using buildChunk_whitelist [of "str ''abcd''" "[1]"]
        buildChunk_whitelist [of "str ''tEXt''" "[1]"]
  by (simp add: str_def)

text \<open>
  C10. The chunk types \<^verbatim>\<open>EmbedTEXT\<close> and \<^verbatim>\<open>EmbedITXT\<close> pass are the literals
  \<^verbatim>\<open>tEXt\<close> and \<^verbatim>\<open>iTXt\<close>, both in the whitelist: for every payload
  \<^verbatim>\<open>buildChunk\<close> returns the bytes of the chunk, which are not \<^verbatim>\<open>nil\<close> (nor empty),
  and the error \<^verbatim>\<open>nil\<close>. So for every value, of any type, that encodes, what either
  function splices is that chunk, and the error it drops is \<^verbatim>\<open>nil\<close>; for a value that
  does not encode, it returns the encoding error before it builds a chunk.
\<close>

theorem Embed_buildChunk_error_nil:
  "isValidChunkType (str ''tEXt'') \<and> isValidChunkType (str ''iTXt'') \<and>
   buildChunk (str ''tEXt'') p = Return (Some (chunk_bytes (str ''tEXt'') p)) None \<and>
   buildChunk (str ''iTXt'') p = Return (Some (chunk_bytes (str ''iTXt'') p)) None \<and>
   chunk_bytes ct p \<noteq> [] \<and>
   EmbedTEXT data k v =
     (case to_bytes v of
        Panic q \<Rightarrow> Panic q
      | Return val (Some err) \<Rightarrow> Return None (Some err)
      | Return val None \<Rightarrow>
          embed data (chunk_bytes (str ''tEXt'') (formatTEXTChunk (slice val) k))) \<and>
   EmbedITXT data k v =
     (case to_bytes v of
        Panic q \<Rightarrow> Panic q
      | Return val (Some err) \<Rightarrow> Return None (Some err)
      | Return val None \<Rightarrow>
          embed data (chunk_bytes (str ''iTXt'') (formatITXTChunk (slice val) k 0 0 [] [])))"
  by (simp add: buildChunk_def chunk_bytes_def Let_def isValidChunkType_iff chunk_types_def
      EmbedTEXT_def EmbedITXT_def PutUint32_def split: outcome.splits option.splits)

section \<open>Evaluating the reader on a stream\<close>

lemma ChecksumIEEE_IHDR:
  "ChecksumIEEE [73, 72, 68, 82, 0, 0, 0, 1, 0, 0, 0, 1, 8, 0, 0, 0, 0] = 0x3A7E9B55"
  unfolding ChecksumIEEE_def crc_update_def
  by (simp only: crc_start)
     (simp add: crc_fold_step crc_step_def crc_table_unfold crc_shift_def crc_poly_def
        del: fold_simps)

lemma ChecksumIEEE_tEXt_abc:
  "ChecksumIEEE [116, 69, 88, 116, 97, 98, 99] = 0xFC859B88"
  unfolding ChecksumIEEE_def crc_update_def
  by (simp only: crc_start)
     (simp add: crc_fold_step crc_step_def crc_table_unfold crc_shift_def crc_poly_def
        del: fold_simps)

lemma ChecksumIEEE_iTXt_a_b:
  "ChecksumIEEE [105, 84, 88, 116, 97, 0, 0, 0, 0, 0, 98] = 0x9F0C0442"
  unfolding ChecksumIEEE_def crc_update_def
  by (simp only: crc_start)
     (simp add: crc_fold_step crc_step_def crc_table_unfold crc_shift_def crc_poly_def
        del: fold_simps)

lemma ChecksumIEEE_iTXt_key_langtext:
  "ChecksumIEEE [105, 84, 88, 116, 107, 101, 121, 0, 0, 0, 108, 97, 110, 103, 116, 101, 120, 116]
     = 0xB6DA05B7"
  unfolding ChecksumIEEE_def crc_update_def
  by (simp only: crc_start)
     (simp add: crc_fold_step crc_step_def crc_table_unfold crc_shift_def crc_poly_def
        del: fold_simps)

lemma pngr_Next_Nil: "pngr_Next verify included [] = Stop EOF"
  by (simp add: pngr_Next.simps)

lemma pngr_Next_Cons:
  "pngr_Next verify included (b # bs) =
     (case read_chunk (b # bs) of
        None \<Rightarrow> Stop (ReaderError 1)
      | Some (ty, dat, crc, rest) \<Rightarrow>
          if verify \<and> PutUint32 (ChecksumIEEE (ty @ dat)) \<noteq> crc then Stop (ReaderError 2)
          else if ty \<in> set included
            then Yield \<lparr>CType = ty, Data = dat\<rparr> (pngr_Next verify included rest)
            else pngr_Next verify included rest)"
  by (subst pngr_Next.simps) simp

lemma reader_no_separator:
  "pngr_NewReader verify png_no_separator [str ''tEXt''] =
     Inr (Yield \<lparr>CType = str ''tEXt'', Data = str ''abc''\<rparr> (Stop EOF))"
  by (simp add: pngr_NewReader_def png_no_separator_def pngMagic_def pngr_Next_Nil pngr_Next_Cons
      read_chunk_def ChecksumIEEE_IHDR ChecksumIEEE_tEXt_abc ChecksumIEEE_IEND PutUint32_def
      str_def)

lemma reader_itxt_truncated:
  "pngr_NewReader verify png_itxt_truncated [str ''iTXt''] =
     Inr (Yield \<lparr>CType = str ''iTXt'', Data = [97, 0, 0, 0, 0, 0, 98]\<rparr>
          (Yield \<lparr>CType = str ''iTXt'',
                  Data = [107, 101, 121, 0, 0, 0, 108, 97, 110, 103, 116, 101, 120, 116]\<rparr>
          (Stop EOF)))"
  by (simp add: pngr_NewReader_def png_itxt_truncated_def pngMagic_def pngr_Next_Nil
      pngr_Next_Cons read_chunk_def ChecksumIEEE_IHDR ChecksumIEEE_iTXt_a_b
      ChecksumIEEE_iTXt_key_langtext ChecksumIEEE_IEND PutUint32_def str_def)

section \<open>Claims about \<^verbatim>\<open>tEXt\<close> extraction\<close>

lemma strings_Index_absent: "0 \<notin> set s \<Longrightarrow> strings_Index s [0] = - 1"
  by (induction s) auto

lemma strings_Index_present:
  "0 \<in> set s \<Longrightarrow> strings_Index s [0] = int (length (takeWhile (\<lambda>b. b \<noteq> 0) s))"
  by (induction s) (auto simp: Let_def)

lemma takeWhile_shorter:
  "x \<in> set s \<Longrightarrow> length (takeWhile (\<lambda>b. b \<noteq> x) s) < length s"
  by (induction s) auto

text \<open>
  A payload without a null byte makes the loop panic, whatever precedes it: the index is
  \<open>-1\<close>, which is below the length, and \<^verbatim>\<open>c.Data[:-1]\<close> is out of range.
\<close>

lemma ExtractTEXT_loop_panics:
  "c \<in> set (chunks_of cs) \<Longrightarrow> 0 \<notin> set (Data c) \<Longrightarrow>
   ExtractTEXT_loop ret cs = Panic SliceBoundsOutOfRange"
proof (induction cs arbitrary: ret)
  case (Stop err)
  then show ?case by simp
next
  case (Yield c' more)
  show ?case
  proof (cases "0 \<in> set (Data c')")
    case True
    then have "c \<noteq> c'" using Yield.prems by auto
    then have "c \<in> set (chunks_of more)" using Yield.prems by simp
    then have ih: "ExtractTEXT_loop r more = Panic SliceBoundsOutOfRange" for r
      using Yield.IH Yield.prems(2) by simp
    have "length (takeWhile (\<lambda>b. b \<noteq> 0) (Data c')) < length (Data c')"
      using True by (rule takeWhile_shorter)
    then show ?thesis
      using True by (simp add: strings_Index_present Let_def slice_to_def slice_from_def ih)
  next
    case False
    then show ?thesis
      by (simp add: strings_Index_absent Let_def slice_to_def)
  qed
qed

text \<open>
  C2. The code does not skip a \<^verbatim>\<open>tEXt\<close> chunk whose payload has no null byte. On
  every stream on which the reader returns such a chunk, \<^verbatim>\<open>ExtractTEXT\<close> panics: it
  returns no mapping and processes no later chunk.
\<close>

theorem ExtractTEXT_panics_without_separator:
  assumes "NewReader data [str ''tEXt''] = Inr cs"
      and "c \<in> set (chunks_of cs)"
      and "0 \<notin> set (Data c)"
  shows "ExtractTEXT NewReader data = Panic SliceBoundsOutOfRange"
  using assms by (simp add: ExtractTEXT_def ExtractTEXT_loop_panics)

theorem ExtractTEXT_panics_without_separator_witness:
  "ExtractTEXT (pngr_NewReader True) png_no_separator = Panic SliceBoundsOutOfRange"
  using ExtractTEXT_panics_without_separator
    [of "pngr_NewReader True" png_no_separator _ "\<lparr>CType = str ''tEXt'', Data = str ''abc''\<rparr>"]
  by (simp add: reader_no_separator) (simp add: str_def)

section \<open>Claims about \<^verbatim>\<open>iTXt\<close> extraction\<close>

lemma ReadBytes_found:
  "0 \<in> set r \<Longrightarrow>
   ReadBytes r NULL_SEPERATOR = (takeWhile (\<lambda>b. b \<noteq> 0) r @ [0], None, after_null r)"
  by (simp add: ReadBytes_def NULL_SEPERATOR_def after_null_def)

lemma ReadBytes_missing: "0 \<notin> set r \<Longrightarrow> ReadBytes r NULL_SEPERATOR = (r, Some EOF, [])"
  by (simp add: ReadBytes_def NULL_SEPERATOR_def)

lemma readNullTerminated_found:
  "0 \<in> set r \<Longrightarrow>
   readNullTerminated r = (takeWhile (\<lambda>b. b \<noteq> 0) r, None, after_null r)"
  by (simp add: readNullTerminated_def ReadBytes_found)

lemma readNullTerminated_missing:
  "0 \<notin> set r \<Longrightarrow> readNullTerminated r = ([], Some EOF, [])"
  by (simp add: readNullTerminated_def ReadBytes_missing)

lemma Discard_one:
  "Discard r 1 = (if r = [] then (0, Some EOF, []) else (1, None, tl r))"
  "Discard r (Suc 0) = (if r = [] then (0, Some EOF, []) else (1, None, tl r))"
  by (cases r; simp add: Discard_def)+

lemma drop_two: "drop 2 r = tl (tl r)"
  by (simp add: numeral_2_eq_2 drop_Suc)

lemma length_less_two: "length r < 2 \<longleftrightarrow> r = [] \<or> tl r = []"
  by (cases r; cases "tl r") auto

text \<open>What the body of the loop returns on a payload, field by field.\<close>

lemma ExtractITXT_body_eq:
  "ExtractITXT_body p =
     (if 0 \<notin> set p then Inl EOF
      else if after_null p = [] then Inl (Wrapped ''discard compression flag'' EOF)
      else if tl (after_null p) = [] then Inl (Wrapped ''discard compression method'' EOF)
      else if 0 \<notin> set (drop 2 (after_null p)) then Inl (Wrapped ''read language tag'' EOF)
      else if 0 \<notin> set (after_null (drop 2 (after_null p)))
        then Inl (Wrapped ''read translated keyword'' EOF)
      else Inr (takeWhile (\<lambda>b. b \<noteq> 0) p, after_null (after_null (drop 2 (after_null p)))))"
proof (cases "0 \<in> set p")
  case False
  then show ?thesis
    by (simp add: ExtractITXT_body_def readNullTerminated_missing)
next
  case kw: True
  show ?thesis
  proof (cases "after_null p = [] \<or> tl (after_null p) = []")
    case True
    then show ?thesis
      using kw by (auto simp: ExtractITXT_body_def readNullTerminated_found Discard_one)
  next
    case two: False
    show ?thesis
    proof (cases "0 \<in> set (tl (tl (after_null p)))")
      case False
      then show ?thesis
        using kw two
        by (simp add: ExtractITXT_body_def readNullTerminated_found Discard_one
            ReadBytes_missing drop_two)
    next
      case lang: True
      show ?thesis
      proof (cases "0 \<in> set (after_null (tl (tl (after_null p))))")
        case False
        then show ?thesis
          using kw two lang
          by (simp add: ExtractITXT_body_def readNullTerminated_found Discard_one
              ReadBytes_found ReadBytes_missing drop_two)
      next
        case True
        then show ?thesis
          using kw two lang
          by (simp add: ExtractITXT_body_def readNullTerminated_found Discard_one
              ReadBytes_found ReadAll_def drop_two)
      qed
    qed
  qed
qed

lemma ExtractITXT_body_exhausted:
  "itxt_exhausted p \<Longrightarrow> \<exists>err. ExtractITXT_body p = Inl err"
  by (auto simp: ExtractITXT_body_eq itxt_exhausted_def length_less_two)

text \<open>The body fails on the exhausted payloads only.\<close>

lemma ExtractITXT_body_framed:
  "\<not> itxt_exhausted p \<Longrightarrow>
   ExtractITXT_body p =
     Inr (takeWhile (\<lambda>b. b \<noteq> 0) p, after_null (after_null (drop 2 (after_null p))))"
  by (auto simp: ExtractITXT_body_eq itxt_exhausted_def length_less_two)

lemma ExtractITXT_loop_aborts:
  "c \<in> set (chunks_of cs) \<Longrightarrow> itxt_exhausted (Data c) \<Longrightarrow>
   \<exists>err. ExtractITXT_loop ret cs = Return None (Some err)"
proof (induction cs arbitrary: ret)
  case (Stop err)
  then show ?case by simp
next
  case (Yield c' more)
  show ?case
  proof (cases "ExtractITXT_body (Data c')")
    case (Inl err)
    then show ?thesis by simp
  next
    case (Inr kv)
    then have "\<not> itxt_exhausted (Data c')"
      using ExtractITXT_body_exhausted by fastforce
    then have "c \<in> set (chunks_of more)"
      using Yield.prems by auto
    then show ?thesis
      using Inr Yield.IH Yield.prems(2) by (simp split: prod.splits)
  qed
qed

text \<open>
  C3. On every stream on which the reader returns an \<^verbatim>\<open>iTXt\<close> chunk whose payload is
  exhausted before one of the three null delimiters or before the two compression bytes,
  \<^verbatim>\<open>ExtractITXT\<close> returns an error and the \<^verbatim>\<open>nil\<close> mapping, also when earlier chunks
  were parsed.
\<close>

theorem ExtractITXT_aborts_on_exhausted_payload:
  assumes "NewReader data [str ''iTXt''] = Inr cs"
      and "c \<in> set (chunks_of cs)"
      and "itxt_exhausted (Data c)"
  shows "\<exists>err. ExtractITXT NewReader data = Return None (Some err)"
  using assms by (simp add: ExtractITXT_def ExtractITXT_loop_aborts)

theorem ExtractITXT_aborts_on_exhausted_payload_witness:
  "ExtractITXT (pngr_NewReader True) png_itxt_truncated =
     Return None (Some (Wrapped ''read language tag'' EOF))"
  using ExtractITXT_aborts_on_exhausted_payload
    [of "pngr_NewReader True" png_itxt_truncated _
        "\<lparr>CType = str ''iTXt'',
          Data = [107, 101, 121, 0, 0, 0, 108, 97, 110, 103, 116, 101, 120, 116]\<rparr>"]
  by (simp add: reader_itxt_truncated itxt_exhausted_def after_null_def)
     (simp add: ExtractITXT_def reader_itxt_truncated ExtractITXT_body_eq after_null_def)

section \<open>Claims about the encoding of a value\<close>

lemma decimal_small: "n < 10 \<Longrightarrow> decimal n = [digit n]"
  by (subst decimal.simps) simp

lemma decimal_large: "10 \<le> n \<Longrightarrow> decimal n = decimal (n div 10) @ [digit (n mod 10)]"
  by (subst decimal.simps) simp

lemma unat_digit: "d < 10 \<Longrightarrow> unat (digit d) = 48 + d"
proof -
  assume d: "d < 10"
  have "unat (of_nat (48 + d) :: byte) = (48 + d) mod 2 ^ LENGTH(8)"
    by (simp only: unat_of_nat take_bit_eq_mod)
  then show ?thesis using d by (simp add: digit_def)
qed

lemma is_digit_digit: "d < 10 \<Longrightarrow> is_digit (digit d)"
  by (simp add: is_digit_def unat_digit)

lemma decimal_digits: "list_all is_digit (decimal n)"
proof (induction n rule: decimal.induct)
  case (1 n)
  show ?case
  proof (cases "n < 10")
    case True
    then show ?thesis by (subst decimal.simps) (simp add: is_digit_digit)
  next
    case False
    then show ?thesis
      using 1 by (subst decimal.simps) (simp add: is_digit_digit)
  qed
qed

lemma decimal_nonempty: "decimal n \<noteq> []"
  by (subst decimal.simps) simp

lemma dec_value_snoc: "dec_value (ds @ [b]) = 10 * dec_value ds + (unat b - 48)"
  by (simp add: dec_value_def)

lemma dec_value_decimal: "dec_value (decimal n) = n"
proof (induction n rule: decimal.induct)
  case (1 n)
  show ?case
  proof (cases "n < 10")
    case True
    then show ?thesis
      by (subst decimal.simps) (simp add: dec_value_def unat_digit)
  next
    case False
    then have "dec_value (decimal n) = 10 * (n div 10) + n mod 10"
      using 1 by (subst decimal.simps) (simp add: dec_value_snoc unat_digit)
    then show ?thesis by simp
  qed
qed

lemma length_decimal: "n < 10 ^ k \<Longrightarrow> 0 < k \<Longrightarrow> length (decimal n) \<le> k"
proof (induction n arbitrary: k rule: decimal.induct)
  case (1 n)
  show ?case
  proof (cases "n < 10")
    case True
    then show ?thesis using "1.prems" by (subst decimal.simps) simp
  next
    case False
    then obtain j where k: "k = Suc j" "0 < j"
      using "1.prems" by (cases k; cases "k - 1") auto
    have "n div 10 < 10 ^ j"
      using "1.prems"(1) k by (simp add: less_mult_imp_div_less mult.commute)
    then have "length (decimal (n div 10)) \<le> j"
      using "1.IH" False k by simp
    then show ?thesis
      using False k by (subst decimal.simps) simp
  qed
qed

lemma length_pad6: "length ds \<le> 6 \<Longrightarrow> length (pad6 ds) = 6"
  by (simp add: pad6_def)

lemma pad6_digits: "list_all is_digit ds \<Longrightarrow> list_all is_digit (pad6 ds)"
  by (auto simp: pad6_def list_all_iff is_digit_digit)

lemma dec_value_append:
  "dec_value (xs @ ys) = dec_value xs * 10 ^ length ys + dec_value ys"
proof (induction ys rule: rev_induct)
  case Nil
  then show ?case by (simp add: dec_value_def)
next
  case (snoc y ys)
  have "dec_value (xs @ ys @ [y]) = 10 * dec_value (xs @ ys) + (unat y - 48)"
    using dec_value_snoc [of "xs @ ys" y] by simp
  then show ?case
    using snoc by (simp add: dec_value_snoc algebra_simps)
qed

lemma dec_value_zeros: "dec_value (replicate k (digit 0)) = 0"
  by (induction k) (simp_all add: dec_value_def unat_digit)

lemma dec_value_pad6: "dec_value (pad6 ds) = dec_value ds"
  using dec_value_append [of "replicate (6 - length ds) (digit 0)" ds]
  by (simp add: pad6_def dec_value_zeros)

text \<open>
  \<open>micro\<close> is the number of millionths nearest to \<open>m * 2 ^ e\<close>: exact for a
  non-negative exponent, and otherwise at most half a millionth away.
\<close>

lemma micro_exact: "0 \<le> e \<Longrightarrow> micro m e = m * 2 ^ nat e * 10 ^ 6"
  by (simp add: micro_def)

lemma micro_nearest:
  assumes "e < 0"
  shows "2 * \<bar>int (micro m e) * 2 ^ nat (- e) - int m * 10 ^ 6\<bar> \<le> 2 ^ nat (- e)"
proof -
  define den :: nat where "den = 2 ^ nat (- e)"
  define num :: nat where "num = m * 10 ^ 6"
  define q where "q = num div den"
  define r where "r = num mod den"
  have den: "0 < den" by (simp add: den_def)
  have num: "num = q * den + r"
    by (simp add: q_def r_def)
  have r: "r < den"
    using den by (simp add: r_def)
  have mic: "micro m e = (if 2 * r > den \<or> (2 * r = den \<and> odd q) then q + 1 else q)"
    using assms by (simp add: micro_def Let_def den_def num_def q_def r_def)
  have "2 * \<bar>int (micro m e) * int den - int num\<bar> \<le> int den"
  proof (cases "2 * r > den \<or> (2 * r = den \<and> odd q)")
    case True
    then have "micro m e = q + 1"
      using mic by simp
    then have "int (micro m e) * int den - int num = int den - int r"
      by (simp add: num algebra_simps)
    then show ?thesis using True r by auto
  next
    case False
    then have "micro m e = q"
      using mic by auto
    then have "int (micro m e) * int den - int num = - int r"
      by (simp add: num)
    then show ?thesis using False by auto
  qed
  then show ?thesis
    by (simp add: den_def num_def)
qed

lemma digit_zero: "digit 0 = 48"
  by (simp add: digit_def)

lemma digit_eq_zero: "d < 10 \<Longrightarrow> digit d = 48 \<longleftrightarrow> d = 0"
proof -
  assume d: "d < 10"
  have "digit d = 48 \<longleftrightarrow> unat (digit d) = unat (48 :: byte)"
    by (simp only: word_unat_eq_iff)
  then show ?thesis using d by (simp add: unat_digit)
qed

lemma decimal_no_leading_zero: "decimal n = [48] \<or> hd (decimal n) \<noteq> 48"
proof (induction n rule: decimal.induct)
  case (1 n)
  show ?case
  proof (cases "n < 10")
    case True
    then show ?thesis
      by (cases "n = 0") (simp_all add: decimal_small digit_zero digit_eq_zero)
  next
    case False
    then have ih: "decimal (n div 10) = [48] \<or> hd (decimal (n div 10)) \<noteq> 48"
      using 1 by simp
    have "decimal (n div 10) \<noteq> [48]"
    proof
      assume "decimal (n div 10) = [48]"
      then have "dec_value (decimal (n div 10)) = 0"
        by (simp add: dec_value_def)
      then show False using False by (simp add: dec_value_decimal)
    qed
    then have "hd (decimal (n div 10)) \<noteq> 48"
      using ih by simp
    then show ?thesis
      using False by (simp add: decimal_large decimal_nonempty)
  qed
qed

lemma decimal_text_decimal: "decimal_text (decimal n) n"
  using decimal_no_leading_zero [of n]
  by (simp add: decimal_text_def decimal_nonempty decimal_digits dec_value_decimal)

lemma digit_of_is_digit: "is_digit b \<Longrightarrow> digit (unat b - 48) = b"
proof -
  assume b: "is_digit b"
  then have r: "48 \<le> unat b" "unat b - 48 < 10"
    by (auto simp: is_digit_def)
  have "unat (digit (unat b - 48)) = unat b"
    using unat_digit [OF r(2)] r(1) by simp
  then show ?thesis by (simp only: word_unat_eq_iff)
qed

text \<open>A number has one decimal text.\<close>

lemma decimal_text_unique: "decimal_text ds n \<Longrightarrow> ds = decimal n"
proof (induction ds arbitrary: n rule: rev_induct)
  case Nil
  then show ?case by (simp add: decimal_text_def)
next
  case (snoc b xs)
  then have b: "is_digit b" and xs: "list_all is_digit xs"
    and n: "n = 10 * dec_value xs + (unat b - 48)"
    by (simp_all add: decimal_text_def dec_value_snoc)
  have lt: "unat b - 48 < 10"
    using b by (auto simp: is_digit_def)
  show ?case
  proof (cases "xs = []")
    case True
    then have "n = unat b - 48"
      using n by (simp add: dec_value_def)
    then show ?thesis
      using True lt b by (simp add: decimal_small digit_of_is_digit)
  next
    case False
    then have "hd xs \<noteq> 48"
      using snoc.prems by (auto simp: decimal_text_def)
    then have "decimal_text xs (dec_value xs)"
      using False xs by (simp add: decimal_text_def)
    then have eq: "xs = decimal (dec_value xs)"
      by (rule snoc.IH)
    have "dec_value xs \<noteq> 0"
    proof
      assume "dec_value xs = 0"
      then have "xs = [digit 0]"
        using eq by (simp add: decimal_small)
      then show False using \<open>hd xs \<noteq> 48\<close> by (simp add: digit_zero)
    qed
    then have "10 \<le> n" "n div 10 = dec_value xs" "n mod 10 = unat b - 48"
      using n lt by simp_all
    then show ?thesis
      using eq b by (simp add: decimal_large digit_of_is_digit)
  qed
qed


text \<open>Digit sequences of one length that denote one number are equal.\<close>

lemma digits_unique:
  "length xs = length ys \<Longrightarrow> list_all is_digit xs \<Longrightarrow> list_all is_digit ys \<Longrightarrow>
   dec_value xs = dec_value ys \<Longrightarrow> xs = ys"
proof (induction xs arbitrary: ys rule: rev_induct)
  case Nil
  then show ?case by simp
next
  case (snoc b xs)
  then obtain c zs where ys: "ys = zs @ [c]"
    by (cases ys rule: rev_cases) auto
  have b: "is_digit b" and c: "is_digit c"
    using snoc.prems ys by simp_all
  then have rb: "48 \<le> unat b" "unat b - 48 < 10" and rc: "48 \<le> unat c" "unat c - 48 < 10"
    by (auto simp: is_digit_def)
  have "10 * dec_value xs + (unat b - 48) = 10 * dec_value zs + (unat c - 48)"
    using snoc.prems(4) ys by (simp add: dec_value_snoc)
  then have "dec_value xs = dec_value zs" "unat b - 48 = unat c - 48"
    using rb(2) rc(2) by presburger+
  then have "xs = zs" "unat b = unat c"
    using snoc.IH [of zs] snoc.prems ys rb(1) rc(1) by auto
  then show ?case
    using ys by (simp add: word_unat_eq_iff)
qed

lemma Sprintf_d_text:
  "\<exists>ds. Sprintf_d i = (if i < 0 then str ''-'' else []) @ ds \<and> decimal_text ds (nat \<bar>i\<bar>)"
  by (auto simp: Sprintf_d_def decimal_text_decimal abs_if)

lemma Marshal_integer_text:
  "\<exists>ds. Marshal_integer i = (if i < 0 then str ''-'' else []) @ ds \<and> decimal_text ds (nat \<bar>i\<bar>)"
  by (auto simp: Marshal_integer_def decimal_text_decimal abs_if)

lemma Sprintf_f_text:
  "\<exists>ip fp. Sprintf_f (Finite neg m e) = (if neg then str ''-'' else []) @ ip @ str ''.'' @ fp \<and>
        decimal_text ip (micro m e div 10 ^ 6) \<and>
        length fp = 6 \<and> list_all is_digit fp \<and> dec_value fp = micro m e mod 10 ^ 6"
proof -
  define q where "q = micro m e"
  let ?fp = "pad6 (decimal (q mod 10 ^ 6))"
  have len: "length (decimal (q mod 10 ^ 6)) \<le> 6"
    by (rule length_decimal) simp_all
  have fp6: "length ?fp = 6"
    using len by (rule length_pad6)
  have "Sprintf_f (Finite neg m e) =
      (if neg then str ''-'' else []) @ decimal (q div 10 ^ 6) @ str ''.'' @ ?fp"
    by (simp add: q_def Let_def)
  then show ?thesis
    using fp6 decimal_text_decimal [of "q div 10 ^ 6"] decimal_digits pad6_digits
      dec_value_pad6 [of "decimal (q mod 10 ^ 6)"] dec_value_decimal [of "q mod 10 ^ 6"]
    unfolding q_def by metis
qed

text \<open>
  C8, as amended. An integer (an \<^verbatim>\<open>int\<close>, a \<^verbatim>\<open>uint\<close>, or a value of a sized integer
  type, which the serializer writes) is encoded as its decimal text: the digits of the
  magnitude without a leading zero, after a minus sign when it is negative, and nothing
  else. A finite floating-point number is encoded as an optional minus sign, the decimal
  text of the integer part, a point and exactly six fraction digits, which denote the
  number rounded to millionths; there is no exponent. Not-a-number and the infinities are
  encoded as \<^verbatim>\<open>NaN\<close>, \<^verbatim>\<open>+Inf\<close> and \<^verbatim>\<open>-Inf\<close>. A string is encoded as its own bytes.
\<close>

theorem to_bytes_text_forms:
  "(\<exists>ds. to_bytes (VInt i) = Return (Some ((if sint i < 0 then str ''-'' else []) @ ds)) None \<and>
        decimal_text ds (nat \<bar>sint i\<bar>)) \<and>
   (\<exists>ds. to_bytes (VUint u) = Return (Some ds) None \<and> decimal_text ds (unat u)) \<and>
   (\<exists>ds. to_bytes (VSized n) = Return (Some ((if n < 0 then str ''-'' else []) @ ds)) None \<and>
        decimal_text ds (nat \<bar>n\<bar>)) \<and>
   (\<exists>ip fp. to_bytes (VFloat64 (Finite neg m e)) =
          Return (Some ((if neg then str ''-'' else []) @ ip @ str ''.'' @ fp)) None \<and>
        decimal_text ip (micro m e div 10 ^ 6) \<and>
        length fp = 6 \<and> list_all is_digit fp \<and> dec_value fp = micro m e mod 10 ^ 6) \<and>
   (\<exists>ip fp. to_bytes (VFloat32 (Finite neg m e)) =
          Return (Some ((if neg then str ''-'' else []) @ ip @ str ''.'' @ fp)) None \<and>
        decimal_text ip (micro m e div 10 ^ 6) \<and>
        length fp = 6 \<and> list_all is_digit fp \<and> dec_value fp = micro m e mod 10 ^ 6) \<and>
   to_bytes (VFloat64 NaN) = Return (Some (str ''NaN'')) None \<and>
   to_bytes (VFloat64 (Inf False)) = Return (Some (str ''+Inf'')) None \<and>
   to_bytes (VFloat64 (Inf True)) = Return (Some (str ''-Inf'')) None \<and>
   to_bytes (VFloat32 NaN) = Return (Some (str ''NaN'')) None \<and>
   to_bytes (VFloat32 (Inf False)) = Return (Some (str ''+Inf'')) None \<and>
   to_bytes (VFloat32 (Inf True)) = Return (Some (str ''-Inf'')) None \<and>
   to_bytes (VString s) = Return (Some s) None"
proof -
  have u: "\<exists>ds. Sprintf_d (uint u) = ds \<and> decimal_text ds (unat u)"
    by (simp add: Sprintf_d_def decimal_text_decimal)
  show ?thesis
    using Sprintf_d_text [of "sint i"] u Marshal_integer_text [of n] Sprintf_f_text [of neg m e]
    by simp
qed

text \<open>
  The claim as stated covers every floating-point value. Not-a-number is one, and its
  encoding is the three letters \<^verbatim>\<open>NaN\<close>: no digit, no point and no six-digit fraction.
\<close>

theorem to_bytes_NaN_counterexample:
  "to_bytes (VFloat64 NaN) = Return (Some [78, 97, 78]) None \<and>
   \<not> list_all is_digit [78, 97, 78] \<and> length [78, 97, 78 :: byte] < 6 \<and>
   46 \<notin> set [78, 97, 78 :: byte]"
  by (simp add: str_def is_digit_def)

text \<open>Some encodings: the integers 42, -42 and -7, and the numbers 1.5 and -5/128.\<close>

lemma to_bytes_examples:
  "to_bytes (VInt 42) = Return (Some (str ''42'')) None"
  "to_bytes (VInt (- 42)) = Return (Some (str ''-42'')) None"
  "to_bytes (VSized (- 7)) = Return (Some (str ''-7'')) None"
  "to_bytes (VFloat64 (Finite False 3 (- 1))) = Return (Some (str ''1.500000'')) None"
  "to_bytes (VFloat64 (Finite True 5 (- 7))) = Return (Some (str ''-0.039062'')) None"
  by (simp_all add: Sprintf_d_def Marshal_integer_def micro_def pad6_def Let_def digit_def
      str_def decimal_small decimal_large)

section \<open>Embedding, then extracting\<close>

lemma take_PutUint32: "take 4 (PutUint32 w @ xs) = PutUint32 w"
  by (simp add: length_PutUint32)

lemma read_chunk_serialized:
  assumes "length ty = 4" "length dat = unat sz" "length crc = 4"
  shows "read_chunk (PutUint32 sz @ ty @ dat @ crc @ rest) = Some (ty, dat, crc, rest)"
  using assms
  by (simp add: read_chunk_def take_PutUint32 Uint32_PutUint32 [of sz "[]", simplified]
      length_PutUint32 Let_def)

lemma pngr_Next_nonempty:
  "bs \<noteq> [] \<Longrightarrow> pngr_Next verify included bs =
     (case read_chunk bs of
        None \<Rightarrow> Stop (ReaderError 1)
      | Some (ty, dat, crc, rest) \<Rightarrow>
          if verify \<and> PutUint32 (ChecksumIEEE (ty @ dat)) \<noteq> crc then Stop (ReaderError 2)
          else if ty \<in> set included
            then Yield \<lparr>CType = ty, Data = dat\<rparr> (pngr_Next verify included rest)
            else pngr_Next verify included rest)"
  by (subst pngr_Next.simps) simp

lemma pngr_Next_serialized:
  assumes "length ty = 4" "length dat = unat sz" "length crc = 4"
      and "crc = PutUint32 (ChecksumIEEE (ty @ dat))"
  shows "pngr_Next verify included (PutUint32 sz @ ty @ dat @ crc @ rest) =
     (if ty \<in> set included
      then Yield \<lparr>CType = ty, Data = dat\<rparr> (pngr_Next verify included rest)
      else pngr_Next verify included rest)"
proof -
  have ne: "PutUint32 sz @ ty @ dat @ crc @ rest \<noteq> []"
    by (simp add: PutUint32_def)
  have rc: "read_chunk (PutUint32 sz @ ty @ dat @ crc @ rest) = Some (ty, dat, crc, rest)"
    by (rule read_chunk_serialized [OF assms(1-3)])
  show ?thesis
    by (simp only: pngr_Next_nonempty [OF ne] rc) (simp add: assms(4))
qed

lemma embed_after_first_chunk:
  assumes "length body = unat sz + 8" "unat sz + 8 < 2 ^ 32"
  shows "embed (pngMagic @ PutUint32 sz @ body @ rest) c =
     Return (Some (pngMagic @ PutUint32 sz @ body @ c @ rest)) None"
proof -
  have nowrap: "unat (sz + 8) = unat sz + 8"
    using assms(2) by (simp add: unat_word_ariths)
  show ?thesis
    using assms(1)
    by (simp add: embed_unfold errIfNotSubStr_prefix length_pngMagic length_PutUint32
        take_PutUint32 Uint32_PutUint32 [of sz "[]", simplified] nowrap)
qed

text \<open>The reader reads back the chunk \<^verbatim>\<open>buildChunk\<close> returns for a payload shorter than \<open>2\<^sup>3\<^sup>2\<close> bytes.\<close>

lemma pngr_Next_built:
  assumes "isValidChunkType ct" "length p < 2 ^ 32"
  shows "\<exists>out. buildChunk ct p = Return (Some out) None \<and>
     (\<forall>rest. pngr_Next verify included (out @ rest) =
       (if ct \<in> set included
        then Yield \<lparr>CType = ct, Data = p\<rparr> (pngr_Next verify included rest)
        else pngr_Next verify included rest))"
proof -
  have ct: "length ct = 4"
    using assms(1) by (simp add: isValidChunkType_iff chunk_types_length)
  have len: "length p = unat (of_nat (length p) :: 32 word)"
    using assms(2) by (simp add: unat_of_nat take_bit_eq_mod)
  have "pngr_Next verify included
      (PutUint32 (of_nat (length p)) @ ct @ p @ PutUint32 (ChecksumIEEE (ct @ p)) @ rest) =
       (if ct \<in> set included
        then Yield \<lparr>CType = ct, Data = p\<rparr> (pngr_Next verify included rest)
        else pngr_Next verify included rest)" for rest
    by (rule pngr_Next_serialized [OF ct len]) (simp_all add: length_PutUint32)
  then show ?thesis
    using assms(1) by (simp add: buildChunk_def Let_def)
qed

lemma takeWhile_key: "0 \<notin> set k \<Longrightarrow> takeWhile (\<lambda>b. b \<noteq> 0) (k @ 0 # xs) = k"
  by (induction k) auto

lemma dropWhile_key: "0 \<notin> set k \<Longrightarrow> dropWhile (\<lambda>b. b \<noteq> 0) (k @ 0 # xs) = 0 # xs"
  by (induction k) auto

lemma ExtractTEXT_loop_formatted:
  assumes "0 \<notin> set k"
  shows "ExtractTEXT_loop ret (Yield \<lparr>CType = ct, Data = formatTEXTChunk val k\<rparr> nxt) =
         ExtractTEXT_loop (ret(k \<mapsto> val)) nxt"
proof -
  have "strings_Index (k @ 0 # val) [0] = int (length k)"
    using assms by (simp add: strings_Index_present takeWhile_key)
  moreover have "nat (int (length k) + 1) = Suc (length k)"
    by simp
  ultimately show ?thesis
    by (simp add: formatTEXTChunk_def NULL_SEPERATOR_def Let_def slice_to_def slice_from_def)
qed

lemma ExtractITXT_body_formatted:
  assumes "0 \<notin> set k"
  shows "ExtractITXT_body (formatITXTChunk val k 0 0 [] []) = Inr (k, val)"
proof -
  have p: "formatITXTChunk val k 0 0 [] [] = k @ 0 # [0, 0, 0, 0] @ val"
    by (simp add: formatITXTChunk_def NULL_SEPERATOR_def)
  have a1: "after_null (k @ 0 # [0, 0, 0, 0] @ val) = [0, 0, 0, 0] @ val"
    using assms by (simp add: after_null_def dropWhile_key)
  show ?thesis
    unfolding p ExtractITXT_body_eq a1
    using assms by (simp add: takeWhile_key) (simp add: after_null_def)
qed


lemma pngr_NewReader_magic:
  "pngr_NewReader verify (pngMagic @ bs) included = Inr (pngr_Next verify included bs)"
  by (simp add: pngr_NewReader_def length_pngMagic)

lemma roundtrip_TEXT:
  assumes first: "length ty = 4" "length dat = unat sz" "unat sz + 8 < 2 ^ 32"
      and crc: "crc = PutUint32 (ChecksumIEEE (ty @ dat))"
      and png: "png = pngMagic @ PutUint32 sz @ ty @ dat @ crc @ rest"
      and key: "0 \<notin> set k"
      and val: "to_bytes v = Return (Some val) None"
      and len: "length k + 1 + length val < 2 ^ 32"
      and ty: "ty \<noteq> str ''tEXt''"
      and rest: "pngr_Next verify [str ''tEXt''] rest = Stop e"
  shows "\<exists>out. EmbedTEXT png k v = Return (Some out) None \<and>
           ExtractTEXT (pngr_NewReader verify) out =
             Return (Some [k \<mapsto> val]) (if e = EOF then None else Some e)"
proof -
  let ?p = "formatTEXTChunk val k"
  have valid: "isValidChunkType (str ''tEXt'')"
    by (simp add: isValidChunkType_iff chunk_types_def)
  have plen: "length ?p < 2 ^ 32"
    using len by (simp add: formatTEXTChunk_def)
  obtain c where c: "buildChunk (str ''tEXt'') ?p = Return (Some c) None"
    and rd: "\<And>r. pngr_Next verify [str ''tEXt''] (c @ r) =
        Yield \<lparr>CType = str ''tEXt'', Data = ?p\<rparr> (pngr_Next verify [str ''tEXt''] r)"
    using pngr_Next_built [OF valid plen, of verify "[str ''tEXt'']"] by auto
  have crclen: "length crc = 4"
    by (simp add: crc length_PutUint32)
  have body: "length (ty @ dat @ crc) = unat sz + 8"
    using first crclen by simp
  let ?out = "pngMagic @ PutUint32 sz @ (ty @ dat @ crc) @ c @ rest"
  have emb: "EmbedTEXT png k v = Return (Some ?out) None"
    using embed_after_first_chunk [OF body first(3), of rest c]
    by (simp add: EmbedTEXT_def val c png)
  have "pngr_Next verify [str ''tEXt''] (PutUint32 sz @ ty @ dat @ crc @ c @ rest) =
      pngr_Next verify [str ''tEXt''] (c @ rest)"
    using pngr_Next_serialized [OF first(1,2) crclen crc, of verify "[str ''tEXt'']" "c @ rest"] ty
    by simp
  then have "pngr_NewReader verify ?out [str ''tEXt''] =
      Inr (Yield \<lparr>CType = str ''tEXt'', Data = ?p\<rparr> (Stop e))"
    by (simp add: pngr_NewReader_magic rd rest)
  then have "ExtractTEXT (pngr_NewReader verify) ?out =
      Return (Some [k \<mapsto> val]) (if e = EOF then None else Some e)"
    by (simp add: ExtractTEXT_def ExtractTEXT_loop_formatted [OF key]
        del: ExtractTEXT_loop.simps(2))
  with emb show ?thesis by blast
qed

lemma roundtrip_ITXT:
  assumes first: "length ty = 4" "length dat = unat sz" "unat sz + 8 < 2 ^ 32"
      and crc: "crc = PutUint32 (ChecksumIEEE (ty @ dat))"
      and png: "png = pngMagic @ PutUint32 sz @ ty @ dat @ crc @ rest"
      and key: "0 \<notin> set k"
      and val: "to_bytes v = Return (Some val) None"
      and len: "length k + 5 + length val < 2 ^ 32"
      and ty: "ty \<noteq> str ''iTXt''"
      and rest: "pngr_Next verify [str ''iTXt''] rest = Stop e"
  shows "\<exists>out. EmbedITXT png k v = Return (Some out) None \<and>
           ExtractITXT (pngr_NewReader verify) out =
             Return (Some [k \<mapsto> val]) (if e = EOF then None else Some e)"
proof -
  let ?p = "formatITXTChunk val k 0 0 [] []"
  have valid: "isValidChunkType (str ''iTXt'')"
    by (simp add: isValidChunkType_iff chunk_types_def)
  have plen: "length ?p < 2 ^ 32"
    using len by (simp add: formatITXTChunk_def)
  obtain c where c: "buildChunk (str ''iTXt'') ?p = Return (Some c) None"
    and rd: "\<And>r. pngr_Next verify [str ''iTXt''] (c @ r) =
        Yield \<lparr>CType = str ''iTXt'', Data = ?p\<rparr> (pngr_Next verify [str ''iTXt''] r)"
    using pngr_Next_built [OF valid plen, of verify "[str ''iTXt'']"] by auto
  have crclen: "length crc = 4"
    by (simp add: crc length_PutUint32)
  have body: "length (ty @ dat @ crc) = unat sz + 8"
    using first crclen by simp
  let ?out = "pngMagic @ PutUint32 sz @ (ty @ dat @ crc) @ c @ rest"
  have emb: "EmbedITXT png k v = Return (Some ?out) None"
    using embed_after_first_chunk [OF body first(3), of rest c]
    by (simp add: EmbedITXT_def val c png)
  have "pngr_Next verify [str ''iTXt''] (PutUint32 sz @ ty @ dat @ crc @ c @ rest) =
      pngr_Next verify [str ''iTXt''] (c @ rest)"
    using pngr_Next_serialized [OF first(1,2) crclen crc, of verify "[str ''iTXt'']" "c @ rest"] ty
    by simp
  then have "pngr_NewReader verify ?out [str ''iTXt''] =
      Inr (Yield \<lparr>CType = str ''iTXt'', Data = ?p\<rparr> (Stop e))"
    by (simp add: pngr_NewReader_magic rd rest)
  then have "ExtractITXT (pngr_NewReader verify) ?out =
      Return (Some [k \<mapsto> val]) (if e = EOF then None else Some e)"
    by (simp add: ExtractITXT_def ExtractITXT_body_formatted [OF key])
  with emb show ?thesis by blast
qed


text \<open>A string, an integer and a floating-point number always encode.\<close>

lemma to_bytes_succeeds:
  "\<exists>val. to_bytes (VString s) = Return (Some val) None"
  "\<exists>val. to_bytes (VInt i) = Return (Some val) None"
  "\<exists>val. to_bytes (VUint u) = Return (Some val) None"
  "\<exists>val. to_bytes (VFloat32 f) = Return (Some val) None"
  "\<exists>val. to_bytes (VFloat64 f) = Return (Some val) None"
  by simp_all

text \<open>
  C1, as amended. The stream is the magic number, a first chunk (length field, four type
  bytes, data of that length, the checksum of type and data; the length at most
  \<open>2\<^sup>3\<^sup>2 - 9\<close>) and a rest from which the reader returns no \<^verbatim>\<open>tEXt\<close> chunk (resp.
  no \<^verbatim>\<open>iTXt\<close> chunk), the first chunk being none either. The keyword has no null
  byte, the value encodes to \<open>val\<close>, and the payload (keyword, the one separator of
  \<^verbatim>\<open>tEXt\<close> resp. the five bytes between keyword and text of \<^verbatim>\<open>iTXt\<close>, and
  \<open>val\<close>) is shorter than \<open>2\<^sup>3\<^sup>2\<close> bytes. Then embedding succeeds, and extracting from its result
  returns the mapping of the keyword to \<open>val\<close>, with the error the reader ends the rest
  with (none at the end of the stream). It holds whether or not the reader checks the
  checksums, and needs no bound on the length of the keyword.
\<close>

theorem Extract_after_Embed_recovers_value:
  assumes "length ty = 4" and "length dat = unat sz" and "unat sz + 8 < 2 ^ 32"
      and "crc = PutUint32 (ChecksumIEEE (ty @ dat))"
      and "png = pngMagic @ PutUint32 sz @ ty @ dat @ crc @ rest"
      and "0 \<notin> set k"
      and "to_bytes v = Return (Some val) None"
  shows "(ty \<noteq> str ''tEXt'' \<and> pngr_Next verify [str ''tEXt''] rest = Stop e \<and>
          length k + 1 + length val < 2 ^ 32 \<longrightarrow>
           (\<exists>out. EmbedTEXT png k v = Return (Some out) None \<and>
              ExtractTEXT (pngr_NewReader verify) out =
                Return (Some [k \<mapsto> val]) (if e = EOF then None else Some e))) \<and>
         (ty \<noteq> str ''iTXt'' \<and> pngr_Next verify [str ''iTXt''] rest = Stop e \<and>
          length k + 5 + length val < 2 ^ 32 \<longrightarrow>
           (\<exists>out. EmbedITXT png k v = Return (Some out) None \<and>
              ExtractITXT (pngr_NewReader verify) out =
                Return (Some [k \<mapsto> val]) (if e = EOF then None else Some e)))"
proof (intro conjI impI; elim conjE)
  assume "ty \<noteq> str ''tEXt''" and "pngr_Next verify [str ''tEXt''] rest = Stop e"
    and "length k + 1 + length val < 2 ^ 32"
  then show "\<exists>out. EmbedTEXT png k v = Return (Some out) None \<and>
      ExtractTEXT (pngr_NewReader verify) out =
        Return (Some [k \<mapsto> val]) (if e = EOF then None else Some e)"
    using assms by (intro roundtrip_TEXT)
next
  assume "ty \<noteq> str ''iTXt''" and "pngr_Next verify [str ''iTXt''] rest = Stop e"
    and "length k + 5 + length val < 2 ^ 32"
  then show "\<exists>out. EmbedITXT png k v = Return (Some out) None \<and>
      ExtractITXT (pngr_NewReader verify) out =
        Return (Some [k \<mapsto> val]) (if e = EOF then None else Some e)"
    using assms by (intro roundtrip_ITXT)
qed

lemma pngr_Next_IEND:
  "pngr_Next verify included [0, 0, 0, 0, 73, 69, 78, 68, 174, 66, 96, 130] =
     (if [73, 69, 78, 68] \<in> set included
      then Yield \<lparr>CType = [73, 69, 78, 68], Data = []\<rparr> (Stop EOF) else Stop EOF)"
  by (simp add: pngr_Next_Cons pngr_Next_Nil read_chunk_def ChecksumIEEE_IEND PutUint32_def)

theorem Extract_after_Embed_recovers_value_witness:
  "(\<exists>out. EmbedTEXT png_minimal (str ''TEST_KEY'') (VInt 42) = Return (Some out) None \<and>
      ExtractTEXT (pngr_NewReader True) out =
        Return (Some [str ''TEST_KEY'' \<mapsto> str ''42'']) None) \<and>
   (\<exists>out. EmbedITXT png_minimal (str ''TEST_KEY'') (VInt 42) = Return (Some out) None \<and>
      ExtractITXT (pngr_NewReader True) out =
        Return (Some [str ''TEST_KEY'' \<mapsto> str ''42'']) None)"
proof -
  have sz: "PutUint32 13 = [0, 0, 0, 13]"
    by (simp add: PutUint32_def)
  have crc: "[58, 126, 155, 85] = PutUint32 (ChecksumIEEE ([73, 72, 68, 82] @ [0, 0, 0, 1, 0, 0, 0, 1, 8, 0, 0, 0, 0]))"
    by (simp add: ChecksumIEEE_IHDR PutUint32_def)
  have png: "png_minimal = pngMagic @ PutUint32 13 @ [73, 72, 68, 82] @
      [0, 0, 0, 1, 0, 0, 0, 1, 8, 0, 0, 0, 0] @ [58, 126, 155, 85] @
      [0, 0, 0, 0, 73, 69, 78, 68, 174, 66, 96, 130]"
    by (simp add: png_minimal_def sz)
  have key: "0 \<notin> set (str ''TEST_KEY'')"
    by (simp add: str_def)
  have val: "to_bytes (VInt 42) = Return (Some (str ''42'')) None"
    by (rule to_bytes_examples)
  have len: "length (str ''TEST_KEY'') + 1 + length (str ''42'') < 2 ^ 32"
      "length (str ''TEST_KEY'') + 5 + length (str ''42'') < 2 ^ 32"
    by (simp_all add: str_def)
  show ?thesis
    using Extract_after_Embed_recovers_value
      [where ty = "[73, 72, 68, 82]" and dat = "[0, 0, 0, 1, 0, 0, 0, 1, 8, 0, 0, 0, 0]"
         and sz = 13 and verify = True and e = EOF, OF _ _ _ crc png key val] len
    by (simp add: pngr_Next_IEND) (simp add: str_def)
qed

text \<open>
  The claim as stated covers every string value. With the key \<^verbatim>\<open>k\<close> and the text of
  \<open>2\<^sup>3\<^sup>2 - 2\<close> bytes the payload has \<open>2\<^sup>3\<^sup>2\<close> bytes, \<^verbatim>\<open>uint32(len(data))\<close> is 0,
  and the reader finds a \<^verbatim>\<open>tEXt\<close> chunk with no data: extraction panics, or, when the
  reader checks the checksum, returns an empty mapping and the reader's error. The key is
  not mapped to the value.
\<close>

lemma length_huge_text: "length huge_text = 2 ^ 32 - 2"
  by (simp add: huge_text_def)

lemma Embed_huge:
  "EmbedTEXT png_minimal [107] (VString huge_text) = Return (Some huge_out) None"
proof -
  have "length (107 # 0 # huge_text) = 2 ^ 32"
    by (simp add: length_huge_text)
  then have len: "(of_nat (length (107 # 0 # huge_text)) :: 32 word) = 0"
    by (simp only: ) simp
  have c: "buildChunk (str ''tEXt'') (formatTEXTChunk huge_text [107]) =
     Return (Some ([0, 0, 0, 0, 116, 69, 88, 116] @ (107 # 0 # huge_text) @
        PutUint32 (ChecksumIEEE ([116, 69, 88, 116] @ 107 # 0 # huge_text)))) None"
    using len
    by (simp add: buildChunk_def Let_def isValidChunkType_iff chunk_types_def formatTEXTChunk_def
        NULL_SEPERATOR_def PutUint32_def [of 0])
       (simp add: str_def)
  have sz: "PutUint32 13 = [0, 0, 0, 13]"
    by (simp add: PutUint32_def)
  have "embed (pngMagic @ PutUint32 13 @
        [73, 72, 68, 82, 0, 0, 0, 1, 0, 0, 0, 1, 8, 0, 0, 0, 0, 58, 126, 155, 85] @
        [0, 0, 0, 0, 73, 69, 78, 68, 174, 66, 96, 130]) x =
      Return (Some (pngMagic @ PutUint32 13 @
        [73, 72, 68, 82, 0, 0, 0, 1, 0, 0, 0, 1, 8, 0, 0, 0, 0, 58, 126, 155, 85] @ x @
        [0, 0, 0, 0, 73, 69, 78, 68, 174, 66, 96, 130])) None" for x
    by (rule embed_after_first_chunk) simp_all
  then show ?thesis
    by (simp add: EmbedTEXT_def c png_minimal_def huge_out_def sz)
qed


lemma ChecksumIEEE_tEXt: "ChecksumIEEE [116, 69, 88, 116] = 0x9642C585"
  unfolding ChecksumIEEE_def crc_update_def
  by (simp only: crc_start)
     (simp add: crc_fold_step crc_step_def crc_table_unfold crc_shift_def crc_poly_def
        del: fold_simps)

lemma reader_huge:
  "\<exists>nxt. pngr_NewReader verify huge_out [str ''tEXt''] =
     Inr (if verify then Stop (ReaderError 2)
          else Yield \<lparr>CType = str ''tEXt'', Data = []\<rparr> nxt)"
proof -
  let ?tail = "PutUint32 (ChecksumIEEE ([116, 69, 88, 116] @ 107 # 0 # huge_text)) @
     [0, 0, 0, 0, 73, 69, 78, 68, 174, 66, 96, 130]"
  let ?c = "[0, 0, 0, 0, 116, 69, 88, 116] @ (107 # 0 # huge_text) @ ?tail"
  have sz: "PutUint32 13 = [0, 0, 0, 13]"
    by (simp add: PutUint32_def)
  have ihdr: "pngr_Next verify [str ''tEXt'']
      (PutUint32 13 @ [73, 72, 68, 82] @ [0, 0, 0, 1, 0, 0, 0, 1, 8, 0, 0, 0, 0] @
       [58, 126, 155, 85] @ ?c) = pngr_Next verify [str ''tEXt''] ?c"
    using pngr_Next_serialized [where ty = "[73, 72, 68, 82]"
        and dat = "[0, 0, 0, 1, 0, 0, 0, 1, 8, 0, 0, 0, 0]" and sz = 13
        and crc = "[58, 126, 155, 85]" and verify = verify and included = "[str ''tEXt'']"
        and rest = ?c]
    by (simp add: ChecksumIEEE_IHDR PutUint32_def str_def)
  have two: "huge_text = 97 # 97 # replicate (2 ^ 32 - 4) 97"
  proof -
    have "(2::nat) ^ 32 - 2 = Suc (Suc (2 ^ 32 - 4))"
      by simp
    then show ?thesis
      unfolding huge_text_def by (simp only: replicate_Suc)
  qed
  have ne: "?c \<noteq> []"
    by simp
  have rc: "read_chunk ?c = Some ([116, 69, 88, 116], [], [107, 0, 97, 97],
      drop 2 huge_text @ ?tail)"
    by (subst (1 2) two) (simp add: read_chunk_def)
  have "pngr_Next verify [str ''tEXt''] ?c =
      (if verify then Stop (ReaderError 2)
       else Yield \<lparr>CType = str ''tEXt'', Data = []\<rparr>
              (pngr_Next verify [str ''tEXt''] (drop 2 huge_text @ ?tail)))"
    by (simp only: pngr_Next_nonempty [OF ne] rc)
       (simp add: ChecksumIEEE_tEXt PutUint32_def str_def)
  then show ?thesis
    using ihdr by (auto simp: huge_out_def pngr_NewReader_magic sz)
qed

theorem Extract_after_Embed_huge_counterexample:
  "to_bytes (VString huge_text) = Return (Some huge_text) None \<and>
   EmbedTEXT png_minimal [107] (VString huge_text) = Return (Some huge_out) None \<and>
   ExtractTEXT (pngr_NewReader False) huge_out = Panic SliceBoundsOutOfRange \<and>
   lookup (ExtractTEXT (pngr_NewReader False) huge_out) [107] = None \<and>
   lookup (ExtractTEXT (pngr_NewReader True) huge_out) [107] = None"
proof -
  obtain nxt where f: "pngr_NewReader False huge_out [str ''tEXt''] =
      Inr (Yield \<lparr>CType = str ''tEXt'', Data = []\<rparr> nxt)"
    using reader_huge [of False] by auto
  have p: "ExtractTEXT (pngr_NewReader False) huge_out = Panic SliceBoundsOutOfRange"
    by (simp add: ExtractTEXT_def f Let_def slice_to_def)
  have t: "pngr_NewReader True huge_out [str ''tEXt''] = Inr (Stop (ReaderError 2))"
    using reader_huge [of True] by auto
  have e: "ExtractTEXT (pngr_NewReader True) huge_out =
      Return (Some Map.empty) (Some (ReaderError 2))"
    by (simp add: ExtractTEXT_def t)
  show ?thesis
    by (simp add: Embed_huge p e)
qed

end
